theory Spec2Isabelle
  imports Main "HOL-Library.AList"
begin

section \<open>Python values and exceptions\<close>

text \<open>
  The decoder of \<^verbatim>\<open>thrift_tools/idl.py\<close> is dynamically typed: a raw value is whatever
  the wire decoder produced, and a value whose declared type is not an instance of
  \<^verbatim>\<open>Type\<close> is passed through unchanged. The values are therefore one universe.

  \<^item> \<open>VInt\<close> is a Python integer. \<^verbatim>\<open>True\<close> and \<^verbatim>\<open>False\<close> are the integers 1 and 0 for
    \<^verbatim>\<open>==\<close>, \<^verbatim>\<open>hash\<close> and dictionary lookup, and are represented by them. Floating-point
    numbers are not part of the universe.
  \<^item> \<open>VField oid field_id value\<close> is a tagged entry of a message: an object with the
    attributes \<^verbatim>\<open>field_id\<close> and \<^verbatim>\<open>value\<close>. Its class is not part of \<^verbatim>\<open>idl.py\<close>; as an
    ordinary object it is compared and hashed by its identity \<open>oid\<close>.
  \<^item> \<open>VSet\<close> and \<open>VDict\<close> list the members (the items) of a set (a dictionary) without
    repetition. Python does not specify the order of iteration; the order of the list
    stands for it. Sets and dictionaries cannot be hashed, so the program never compares two
    of them.
\<close>

datatype error = TypeError | AttributeError | KeyError | ValueError | IndexError

datatype pyval =
    VNone
  | VInt int
  | VStr string
  | VTuple "pyval list"
  | VList "pyval list"
  | VSet "pyval list"
  | VDict "(pyval \<times> pyval) list"
  | VField nat int pyval

text \<open>Sequencing of two computations, the first of which may raise.\<close>

definition and_then :: "error + 'a \<Rightarrow> ('a \<Rightarrow> error + 'b) \<Rightarrow> error + 'b" where
  "and_then m f = (case m of Inl e \<Rightarrow> Inl e | Inr x \<Rightarrow> f x)"

text \<open>
  A \<^verbatim>\<open>for\<close> loop over a list whose body updates the loop's variables \<open>s\<close> and may raise:
  the first exception leaves the loop.
\<close>

fun for_each :: "('a \<Rightarrow> 's \<Rightarrow> error + 's) \<Rightarrow> 'a list \<Rightarrow> 's \<Rightarrow> error + 's" where
  "for_each body [] s = Inr s"
| "for_each body (x # xs) s =
     (case body x s of Inl e \<Rightarrow> Inl e | Inr s' \<Rightarrow> for_each body xs s')"

text \<open>\<^verbatim>\<open>hash(v)\<close> raises TypeError on a list, a set, a dictionary, and on a tuple that holds one.\<close>

fun hashable :: "pyval \<Rightarrow> bool" where
  "hashable (VList xs) = False"
| "hashable (VSet xs) = False"
| "hashable (VDict kvs) = False"
| "hashable (VTuple xs) = list_all hashable xs"
| "hashable v = True"

text \<open>\<^verbatim>\<open>iter(v)\<close>: the elements a \<^verbatim>\<open>for\<close> loop over \<open>v\<close> visits.\<close>

fun py_iter :: "pyval \<Rightarrow> error + pyval list" where
  "py_iter (VList xs) = Inr xs"
| "py_iter (VTuple xs) = Inr xs"
| "py_iter (VSet xs) = Inr xs"
| "py_iter (VDict kvs) = Inr (map fst kvs)"
| "py_iter (VStr s) = Inr (map (\<lambda>c. VStr [c]) s)"
| "py_iter v = Inl TypeError"

text \<open>\<^verbatim>\<open>len(v)\<close>.\<close>

fun py_len :: "pyval \<Rightarrow> error + nat" where
  "py_len (VList xs) = Inr (length xs)"
| "py_len (VTuple xs) = Inr (length xs)"
| "py_len (VSet xs) = Inr (length xs)"
| "py_len (VDict kvs) = Inr (length kvs)"
| "py_len (VStr s) = Inr (length s)"
| "py_len v = Inl TypeError"

text \<open>\<^verbatim>\<open>v[0]\<close>: the first element of a sequence, the value at key 0 of a dictionary.\<close>

fun py_getitem0 :: "pyval \<Rightarrow> error + pyval" where
  "py_getitem0 (VList xs) = (case xs of [] \<Rightarrow> Inl IndexError | x # _ \<Rightarrow> Inr x)"
| "py_getitem0 (VTuple xs) = (case xs of [] \<Rightarrow> Inl IndexError | x # _ \<Rightarrow> Inr x)"
| "py_getitem0 (VStr s) = (case s of [] \<Rightarrow> Inl IndexError | c # _ \<Rightarrow> Inr (VStr [c]))"
| "py_getitem0 (VDict kvs) =
     (case map_of kvs (VInt 0) of None \<Rightarrow> Inl KeyError | Some v \<Rightarrow> Inr v)"
| "py_getitem0 v = Inl TypeError"

text \<open>The attributes \<^verbatim>\<open>x.field_id\<close> and \<^verbatim>\<open>x.value\<close>; only a tagged entry has them.\<close>

fun get_field_id :: "pyval \<Rightarrow> error + int" where
  "get_field_id (VField oid fid v) = Inr fid"
| "get_field_id x = Inl AttributeError"

fun get_value :: "pyval \<Rightarrow> error + pyval" where
  "get_value (VField oid fid v) = Inr v"
| "get_value x = Inl AttributeError"

text \<open>\<^verbatim>\<open>key, value = x\<close>: \<open>x\<close> is iterated and must yield two elements.\<close>

definition unpack2 :: "pyval \<Rightarrow> error + (pyval \<times> pyval)" where
  "unpack2 x =
     and_then (py_iter x)
       (\<lambda>xs. case xs of [k, v] \<Rightarrow> Inr (k, v) | _ \<Rightarrow> Inl ValueError)"

text \<open>\<^verbatim>\<open>s.add(v)\<close> on a set and \<^verbatim>\<open>d[k] = v\<close> on a dictionary; both hash their key.\<close>

definition set_add :: "pyval \<Rightarrow> pyval list \<Rightarrow> error + pyval list" where
  "set_add v s = (if hashable v then Inr (List.insert v s) else Inl TypeError)"

definition dict_setitem :: "pyval \<Rightarrow> pyval \<Rightarrow> (pyval \<times> pyval) list \<Rightarrow> error + (pyval \<times> pyval) list" where
  "dict_setitem k v d = (if hashable k then Inr (AList.update k v d) else Inl TypeError)"

text \<open>
  \<^verbatim>\<open>dict(pairs)\<close> over keys that are integers or strings, which always hash: the pairs are
  stored in order, a later pair replacing an earlier one with the same key.
\<close>

definition dict_of :: "('k \<times> 'v) list \<Rightarrow> ('k \<rightharpoonup> 'v)" where
  "dict_of kvs = foldl (\<lambda>d (k, v). d(k \<mapsto> v)) Map.empty kvs"

text \<open>
  \<^verbatim>\<open>dict((x.field_id, x) for x in fields)\<close>: \<open>fields\<close> is iterated, and every element
  must have the attribute \<open>field_id\<close>.
\<close>

definition by_field_id :: "pyval \<Rightarrow> error + (int \<rightharpoonup> pyval)" where
  "by_field_id fields =
     and_then (py_iter fields)
       (\<lambda>xs. for_each (\<lambda>x d. and_then (get_field_id x) (\<lambda>fid. Inr (d(fid \<mapsto> x)))) xs Map.empty)"

section \<open>The schema types\<close>

text \<open>
  The subclasses of \<^verbatim>\<open>Type\<close>; \<open>Prim\<close> is any object that is not an instance of
  \<^verbatim>\<open>Type\<close> (the syntax node of a primitive type, which \<^verbatim>\<open>resolve_type\<close> returns as it is).
  The class \<^verbatim>\<open>Type\<close> itself is never instantiated.
\<close>

datatype ty =
    Prim
  | Enum string "(string \<times> int) list"
  | Struct string "Field list"
  | Exc string "Field list"
  | List ty
  | Set ty
  | Map ty ty
and Field = Field (tag: int) (name: string) (is_required: bool) (type: ty)

fun isinstance_Type :: "ty \<Rightarrow> bool" where
  "isinstance_Type Prim = False"
| "isinstance_Type t = True"

text \<open>\<^verbatim>\<open>Enum.names_by_tags\<close>, built by the constructor.\<close>

definition names_by_tags :: "(string \<times> int) list \<Rightarrow> (int \<rightharpoonup> string)" where
  "names_by_tags values = dict_of (map (\<lambda>(name, value). (value, name)) values)"

text \<open>\<^verbatim>\<open>self.names_by_tags[value]\<close>: the key is hashed, then looked up.\<close>

definition enum_getitem :: "(int \<rightharpoonup> string) \<Rightarrow> pyval \<Rightarrow> error + pyval" where
  "enum_getitem d v =
     (if \<not> hashable v then Inl TypeError
      else case v of
             VInt i \<Rightarrow> (case d i of None \<Rightarrow> Inl KeyError | Some l \<Rightarrow> Inr (VStr l))
           | _ \<Rightarrow> Inl KeyError)"

lemma and_then_cong [fundef_cong]:
  "m = m' \<Longrightarrow> (\<And>x. m' = Inr x \<Longrightarrow> f x = g x) \<Longrightarrow> and_then m f = and_then m' g"
  by (cases m') (simp_all add: and_then_def)

lemma for_each_cong [fundef_cong]:
  "xs = ys \<Longrightarrow> s = t \<Longrightarrow> (\<And>x s'. x \<in> set ys \<Longrightarrow> f x s' = g x s')
     \<Longrightarrow> for_each f xs s = for_each g ys t"
proof (induction ys arbitrary: xs s t)
  case Nil
  then show ?case by simp
next
  case (Cons y ys)
  then show ?case by (auto split: sum.splits)
qed

text \<open>
  The method \<^verbatim>\<open>parse\<close> of each subclass of \<^verbatim>\<open>Type\<close>, and the test
  \<^verbatim>\<open>if isinstance(t, Type): value = t.parse(value)\<close> that precedes every call of it.
  A decoded struct is the tuple \<^verbatim>\<open>(self.name, struct_fields)\<close>.
\<close>

function parse :: "ty \<Rightarrow> pyval \<Rightarrow> error + pyval"
  and parse_if_Type :: "ty \<Rightarrow> pyval \<Rightarrow> error + pyval" where
  "parse_if_Type t v = (if isinstance_Type t then parse t v else Inr v)"
| "parse Prim v = Inr v"
| "parse (Enum n values) v = enum_getitem (names_by_tags values) v"
| "parse (Struct n fs) fields =
     and_then (by_field_id fields) (\<lambda>fields_by_tag.
     and_then (for_each (\<lambda>field_def struct_fields.
                 and_then (case fields_by_tag (tag field_def) of
                             None \<Rightarrow> Inr VNone
                           | Some field \<Rightarrow>
                               and_then (get_value field) (parse_if_Type (type field_def)))
                   (\<lambda>v. Inr (struct_fields @ [VTuple [VStr (name field_def), v]])))
               fs []) (\<lambda>struct_fields.
     Inr (VTuple [VStr n, VList struct_fields])))"
| "parse (Exc n fs) fields = parse (Struct n fs) fields"
| "parse (List t) values =
     and_then (py_iter values) (\<lambda>xs.
     and_then (for_each (\<lambda>v list_values.
                 and_then (parse_if_Type t v) (\<lambda>v'. Inr (list_values @ [v'])))
               xs []) (\<lambda>list_values.
     Inr (VList list_values)))"
| "parse (Set t) values =
     and_then (py_iter values) (\<lambda>xs.
     and_then (for_each (\<lambda>v set_values.
                 and_then (parse_if_Type t v) (\<lambda>v'. set_add v' set_values))
               xs []) (\<lambda>set_values.
     Inr (VSet set_values)))"
| "parse (Map kt vt) m =
     and_then (py_iter m) (\<lambda>xs.
     and_then (for_each (\<lambda>x map_values.
                 and_then (unpack2 x) (\<lambda>(k, v).
                 and_then (parse_if_Type kt k) (\<lambda>k'.
                 and_then (parse_if_Type vt v) (\<lambda>v'.
                 dict_setitem k' v' map_values))))
               xs []) (\<lambda>map_values.
     Inr (VDict map_values)))"
  by pat_completeness auto
termination
proof (relation "measure (\<lambda>x. case x of Inl (t, v) \<Rightarrow> 3 * size t + (case t of Exc n fs \<Rightarrow> 1 | _ \<Rightarrow> 0)
                           | Inr (t, v) \<Rightarrow> 3 * size t + 2)")
  fix n :: string and fs :: "Field list" and field_def :: Field and v v' :: pyval
  assume "field_def \<in> set fs"
  moreover have "size (type field_def) \<le> size field_def"
    by (cases field_def) simp
  ultimately have "size (type field_def) \<le> size_list size fs"
    by (rule size_list_estimation')
  then show "(Inr (type field_def, v), Inl (Struct n fs, v'))
      \<in> measure (\<lambda>x. case x of Inl (t, v) \<Rightarrow> 3 * size t + (case t of Exc n fs \<Rightarrow> 1 | _ \<Rightarrow> 0)
                           | Inr (t, v) \<Rightarrow> 3 * size t + 2)"
    by simp
qed (simp_all split: ty.splits)

section \<open>Functions, messages and the catalog\<close>

text \<open>
  The class \<^verbatim>\<open>Function\<close>. Its constructor also builds \<^verbatim>\<open>throws_by_tags\<close>, the
  dictionary \<^verbatim>\<open>dict((x.tag, x) for x in self.throws)\<close>.
\<close>

record Function =
  name :: string
  arguments :: "Field list"
  type :: ty
  throws :: "Field list"

definition throws_by_tags :: "Function \<Rightarrow> (int \<rightharpoonup> Field)" where
  "throws_by_tags self = dict_of (map (\<lambda>x. (Field.tag x, x)) (throws self))"

text \<open>
  A message: its role marker \<^verbatim>\<open>msg.type\<close> and its payload \<^verbatim>\<open>msg.args\<close>, which for a
  well-formed message is a list of tagged entries and for a malformed one any value.
\<close>

record msg =
  type :: string
  args :: pyval

text \<open>
  The body of the \<^verbatim>\<open>try\<close> statement of \<^verbatim>\<open>Function.get_args\<close>: \<open>Inr (Some v)\<close> when it
  executes \<^verbatim>\<open>return v\<close>, \<open>Inr None\<close> when control reaches its end, \<open>Inl e\<close> when it raises.
\<close>

definition get_args_try :: "Function \<Rightarrow> msg \<Rightarrow> error + pyval option" where
  "get_args_try self m =
     (if msg.type m = ''call'' then
        and_then (by_field_id (args m)) (\<lambda>args_by_tag.
        and_then (for_each (\<lambda>arg acc.
                    and_then (get_value (case args_by_tag (Field.tag arg) of
                                           None \<Rightarrow> VNone | Some x \<Rightarrow> x)) (\<lambda>v.
                    and_then (parse_if_Type (Field.type arg) v) (\<lambda>v'.
                    Inr (acc @ [VTuple [VStr (Field.name arg), v']]))))
                  (arguments self) []) (\<lambda>acc.
        Inr (Some (VList acc))))
      else if msg.type m = ''reply'' then
        and_then (py_len (args m)) (\<lambda>n.
        if n > 0 then
          and_then (py_getitem0 (args m)) (\<lambda>first.
          and_then (get_field_id first) (\<lambda>fid.
          if fid = 0 then
            and_then (get_value first) (\<lambda>v.
            and_then (parse_if_Type (Function.type self) v) (\<lambda>v'.
            Inr (Some v')))
          else
            and_then (get_value first) (\<lambda>v.
            and_then (case throws_by_tags self fid of
                        None \<Rightarrow> Inl KeyError
                      | Some throw \<Rightarrow> Inr (Field.type throw)) (\<lambda>throw_type.
            and_then (parse_if_Type throw_type v) (\<lambda>v'.
            Inr (Some v'))))))
        else Inr None)
      else Inr None)"

text \<open>
  \<^verbatim>\<open>Function.get_args\<close>: the bare \<^verbatim>\<open>except:\<close> catches every exception of the body (and
  prints the traceback, which is not modelled), after which, as when the body ends
  without returning, the function returns \<^verbatim>\<open>msg.args\<close>.
\<close>

definition get_args :: "Function \<Rightarrow> msg \<Rightarrow> error + pyval" where
  "get_args self m =
     (case get_args_try self m of
        Inr (Some v) \<Rightarrow> Inr v
      | Inr None \<Rightarrow> Inr (args m)
      | Inl e \<Rightarrow> Inr (args m))"

text \<open>The class \<^verbatim>\<open>Idl\<close> with its dictionary \<^verbatim>\<open>functions_by_name\<close>.\<close>

record Idl =
  "functions" :: "Function list"

definition functions_by_name :: "Idl \<Rightarrow> (string \<rightharpoonup> Function)" where
  "functions_by_name self = dict_of (map (\<lambda>x. (Function.name x, x)) (functions self))"

text \<open>\<^verbatim>\<open>self.functions_by_name.get(name, None)\<close>.\<close>

definition get_function :: "Idl \<Rightarrow> string \<Rightarrow> Function option" where
  "get_function self n = functions_by_name self n"

section \<open>Tagged entries of a raw field list\<close>

text \<open>
  \<open>is_field x\<close>: \<open>x\<close> is a tagged entry. \<open>last_entry xs t\<close> is the last entry of the list
  \<open>xs\<close> whose \<open>field_id\<close> is \<open>t\<close>, if there is one.
\<close>

fun is_field :: "pyval \<Rightarrow> bool" where
  "is_field (VField oid fid v) = True"
| "is_field x = False"

fun last_entry :: "pyval list \<Rightarrow> int \<Rightarrow> pyval option" where
  "last_entry [] t = None"
| "last_entry (x # xs) t =
     (case last_entry xs t of
        Some y \<Rightarrow> Some y
      | None \<Rightarrow> (if get_field_id x = Inr t then Some x else None))"

text \<open>
  The value that the loop of \<^verbatim>\<open>Struct.parse\<close> computes for the declared field
  \<open>field_def\<close> from the dictionary \<open>fields_by_tag\<close>: \<^verbatim>\<open>None\<close> when the dictionary has no
  entry for the tag, and else the value of the entry, decoded through the type of the field.
\<close>

definition field_value :: "(int \<rightharpoonup> pyval) \<Rightarrow> Field \<Rightarrow> error + pyval" where
  "field_value fields_by_tag field_def =
     (case fields_by_tag (Field.tag field_def) of
        None \<Rightarrow> Inr VNone
      | Some field \<Rightarrow> and_then (get_value field) (parse_if_Type (Field.type field_def)))"

section \<open>Sequencing and loops\<close>

lemma and_then_Inr [simp]: "and_then (Inr x) f = f x"
  by (simp add: and_then_def)

lemma and_then_Inl [simp]: "and_then (Inl e) f = Inl e"
  by (simp add: and_then_def)

lemma and_then_assoc: "and_then (and_then m f) g = and_then m (\<lambda>x. and_then (f x) g)"
  by (cases m) simp_all

lemma and_then_eq_Inr: "and_then m f = Inr y \<longleftrightarrow> (\<exists>x. m = Inr x \<and> f x = Inr y)"
  by (cases m) simp_all

lemma for_each_collect:
  "list_all2 (\<lambda>x v. f x = Inr v) xs vs \<Longrightarrow>
     for_each (\<lambda>x acc. and_then (f x) (\<lambda>v. Inr (acc @ [g x v]))) xs acc
       = Inr (acc @ map2 g xs vs)"
  by (induction xs vs arbitrary: acc rule: list_all2_induct) simp_all

lemma for_each_collect_Inr:
  "for_each (\<lambda>x acc. and_then (f x) (\<lambda>v. Inr (acc @ [g x v]))) xs acc = Inr r \<Longrightarrow>
     \<exists>vs. list_all2 (\<lambda>x v. f x = Inr v) xs vs \<and> r = acc @ map2 g xs vs"
proof (induction xs arbitrary: acc)
  case Nil
  then show ?case by simp
next
  case (Cons x xs)
  from Cons.prems obtain v where v: "f x = Inr v"
    and rest: "for_each (\<lambda>x acc. and_then (f x) (\<lambda>v. Inr (acc @ [g x v]))) xs (acc @ [g x v]) = Inr r"
    by (cases "f x") simp_all
  from Cons.IH[OF rest] obtain vs where
    "list_all2 (\<lambda>x v. f x = Inr v) xs vs" "r = (acc @ [g x v]) @ map2 g xs vs"
    by blast
  with v have "list_all2 (\<lambda>x v. f x = Inr v) (x # xs) (v # vs) \<and> r = acc @ map2 g (x # xs) (v # vs)"
    by simp
  then show ?case by blast
qed

lemma last_entry_append:
  "last_entry (xs @ ys) t = (case last_entry ys t of Some y \<Rightarrow> Some y | None \<Rightarrow> last_entry xs t)"
  by (induction xs) (auto split: option.splits)

lemma last_entry_None: "last_entry xs t = None \<longleftrightarrow> (\<forall>x \<in> set xs. get_field_id x \<noteq> Inr t)"
  by (induction xs) (auto split: option.splits)

lemma last_entry_Some_field: "last_entry xs t = Some x \<Longrightarrow> x \<in> set xs \<and> get_field_id x = Inr t"
  by (induction xs) (auto split: option.splits if_splits)

lemma by_field_id_loop:
  "for_each (\<lambda>x d. and_then (get_field_id x) (\<lambda>fid. Inr (d(fid \<mapsto> x)))) xs d =
     (if list_all is_field xs
      then Inr (\<lambda>t. case last_entry xs t of Some y \<Rightarrow> Some y | None \<Rightarrow> d t)
      else Inl AttributeError)"
proof (induction xs arbitrary: d)
  case Nil
  then show ?case by simp
next
  case (Cons x xs)
  show ?case
  proof (cases x)
    case (VField oid fid v)
    have eq: "(\<lambda>t. case last_entry xs t of Some y \<Rightarrow> Some y | None \<Rightarrow> (d(fid \<mapsto> x)) t)
        = (\<lambda>t. case last_entry (x # xs) t of Some y \<Rightarrow> Some y | None \<Rightarrow> d t)"
      using VField by (auto simp: fun_eq_iff split: option.splits)
    have "for_each (\<lambda>x d. and_then (get_field_id x) (\<lambda>fid. Inr (d(fid \<mapsto> x)))) (x # xs) d
        = for_each (\<lambda>x d. and_then (get_field_id x) (\<lambda>fid. Inr (d(fid \<mapsto> x)))) xs (d(fid \<mapsto> x))"
      using VField by (simp del: fun_upd_apply)
    also have "\<dots> = (if list_all is_field xs
        then Inr (\<lambda>t. case last_entry xs t of Some y \<Rightarrow> Some y | None \<Rightarrow> (d(fid \<mapsto> x)) t)
        else Inl AttributeError)"
      by (rule Cons.IH)
    also have "\<dots> = (if list_all is_field (x # xs)
        then Inr (\<lambda>t. case last_entry (x # xs) t of Some y \<Rightarrow> Some y | None \<Rightarrow> d t)
        else Inl AttributeError)"
    proof -
      have "list_all is_field (x # xs) = list_all is_field xs"
        using VField by simp
      then show ?thesis by (simp only: eq)
    qed
    finally show ?thesis .
  qed simp_all
qed

lemma by_field_id_VList:
  "by_field_id (VList xs) = (if list_all is_field xs then Inr (last_entry xs) else Inl AttributeError)"
proof -
  have "(\<lambda>t. case last_entry xs t of Some y \<Rightarrow> Some y | None \<Rightarrow> Map.empty t) = last_entry xs"
    by (auto simp: fun_eq_iff split: option.splits)
  then show ?thesis
    by (simp add: by_field_id_def by_field_id_loop)
qed

lemma for_each_Inr_body:
  "for_each body xs s = Inr r \<Longrightarrow> x \<in> set xs \<Longrightarrow> \<exists>s s'. body x s = Inr s'"
proof (induction xs arbitrary: s)
  case Nil
  then show ?case by simp
next
  case (Cons y ys)
  from Cons.prems(1) obtain s' where y: "body y s = Inr s'" and rest: "for_each body ys s' = Inr r"
    by (cases "body y s") simp_all
  show ?case
  proof (cases "x = y")
    case True
    with y show ?thesis by blast
  next
    case False
    with Cons.prems(2) have "x \<in> set ys" by simp
    with Cons.IH[OF rest] show ?thesis by blast
  qed
qed

lemma for_each_body_fails:
  assumes "x \<in> set xs" and "\<And>s. \<exists>e. body x s = Inl e"
  shows "\<exists>e. for_each body xs s = Inl e"
proof (cases "for_each body xs s")
  case (Inl e)
  then show ?thesis by blast
next
  case (Inr r)
  from for_each_Inr_body[OF Inr assms(1)] obtain s0 s' where "body x s0 = Inr s'" by blast
  with assms(2)[of s0] show ?thesis by auto
qed

lemma arg_value_eq_Inr:
  "and_then (get_value (case d t of None \<Rightarrow> VNone | Some x \<Rightarrow> x)) f = Inr v
     \<longleftrightarrow> (\<exists>field x. d t = Some field \<and> get_value field = Inr x \<and> f x = Inr v)"
  by (cases "d t") (auto simp: and_then_eq_Inr)

section \<open>The loop of \<^verbatim>\<open>Struct.parse\<close>\<close>

lemma parse_Struct_VList:
  "parse (Struct n fs) (VList raw) =
     (if list_all is_field raw
      then and_then (for_each (\<lambda>fd acc. and_then (field_value (last_entry raw) fd)
                                 (\<lambda>v. Inr (acc @ [VTuple [VStr (Field.name fd), v]]))) fs [])
             (\<lambda>ps. Inr (VTuple [VStr n, VList ps]))
      else Inl AttributeError)"
  by (simp add: by_field_id_VList field_value_def del: parse_if_Type.simps)

lemma last_entry_filter_other:
  "t' \<noteq> t \<Longrightarrow> last_entry (filter (\<lambda>x. get_field_id x \<noteq> Inr t) xs) t' = last_entry xs t'"
  by (induction xs) (auto split: option.splits)

lemma is_field_filter:
  "list_all is_field (filter (\<lambda>x. get_field_id x \<noteq> Inr t) xs) = list_all is_field xs"
proof (induction xs)
  case Nil
  then show ?case by simp
next
  case (Cons x xs)
  then show ?case by (cases x) simp_all
qed

lemma last_entry_overwritten:
  "last_entry (filter (\<lambda>x. get_field_id x \<noteq> Inr t) xs @ VField oid t v # ys)
     = last_entry (xs @ VField oid t v # ys)"
proof
  fix t'
  show "last_entry (filter (\<lambda>x. get_field_id x \<noteq> Inr t) xs @ VField oid t v # ys) t'
     = last_entry (xs @ VField oid t v # ys) t'"
    by (cases "t' = t") (auto simp: last_entry_append last_entry_filter_other split: option.splits)
qed

lemma last_entry_other_tag:
  "t' \<noteq> t \<Longrightarrow> last_entry (xs @ VField oid t v # ys) t' = last_entry (xs @ ys) t'"
  by (auto simp: last_entry_append split: option.splits)

lemma last_entry_last:
  "\<forall>y \<in> set ys. get_field_id y \<noteq> Inr t \<Longrightarrow>
     last_entry (xs @ VField oid t v # ys) t = Some (VField oid t v)"
  using last_entry_None[of ys t] by (auto simp: last_entry_append split: option.splits)


lemma field_value_no_entry: "field_value (last_entry []) fd = Inr VNone"
  by (simp add: field_value_def)

lemma field_value_absent:
  "\<forall>x \<in> set raw. get_field_id x \<noteq> Inr (Field.tag fd) \<Longrightarrow> field_value (last_entry raw) fd = Inr VNone"
  using last_entry_None[of raw "Field.tag fd"] by (simp add: field_value_def)

section \<open>The loops of \<^verbatim>\<open>Set.parse\<close> and \<^verbatim>\<open>Map.parse\<close>\<close>

lemma for_each_set_add:
  "list_all2 (\<lambda>x v. f x = Inr v \<and> hashable v) xs vs \<Longrightarrow>
     for_each (\<lambda>x s. and_then (f x) (\<lambda>v. set_add v s)) xs s
       = Inr (foldl (\<lambda>s v. List.insert v s) s vs)"
  by (induction xs vs arbitrary: s rule: list_all2_induct) (simp_all add: set_add_def)

lemma set_foldl_insert: "set (foldl (\<lambda>s v. List.insert v s) s vs) = set s \<union> set vs"
  by (induction vs arbitrary: s) auto

lemma distinct_foldl_insert: "distinct s \<Longrightarrow> distinct (foldl (\<lambda>s v. List.insert v s) s vs)"
  by (induction vs arbitrary: s) auto

lemma for_each_dict_setitem:
  "list_all2 (\<lambda>x (k', v'). \<exists>k v. unpack2 x = Inr (k, v) \<and> fk k = Inr k' \<and> fv v = Inr v' \<and> hashable k') xs kvs \<Longrightarrow>
     for_each (\<lambda>x d. and_then (unpack2 x) (\<lambda>(k, v). and_then (fk k) (\<lambda>k'.
                 and_then (fv v) (\<lambda>v'. dict_setitem k' v' d)))) xs d
       = Inr (foldl (\<lambda>d (k', v'). AList.update k' v' d) d kvs)"
  by (induction xs kvs arbitrary: d rule: list_all2_induct) (auto simp: dict_setitem_def)

lemma map_of_foldl_update:
  "map_of (foldl (\<lambda>d (k, v). AList.update k v d) d kvs) = map_of d ++ map_of (rev kvs)"
  by (induction kvs arbitrary: d) (auto simp: update_conv' map_add_def fun_eq_iff split: option.splits)

lemma distinct_foldl_update:
  "distinct (map fst d) \<Longrightarrow> distinct (map fst (foldl (\<lambda>d (k, v). AList.update k v d) d kvs))"
  by (induction kvs arbitrary: d) (auto simp: distinct_update)

section \<open>Dictionaries built from a list of pairs\<close>

lemma foldl_upd_map_of:
  "foldl (\<lambda>d (k, v). d(k \<mapsto> v)) m kvs = m ++ map_of (rev kvs)"
  by (induction kvs arbitrary: m) (auto simp: map_add_def fun_eq_iff split: option.splits)

lemma dict_of_map_of: "dict_of kvs = map_of (rev kvs)"
  by (simp add: dict_of_def foldl_upd_map_of)

lemma dict_of_None: "k \<notin> fst ` set kvs \<Longrightarrow> dict_of kvs k = None"
  by (simp add: dict_of_map_of map_of_eq_None_iff)

lemma dict_of_last:
  assumes "k \<notin> fst ` set zs"
  shows "dict_of (xs @ (k, v) # zs) k = Some v"
proof -
  have "map_of (rev zs) k = None"
    using assms by (simp add: map_of_eq_None_iff)
  then show ?thesis
    by (simp add: dict_of_map_of map_add_def)
qed

section \<open>The two branches of \<^verbatim>\<open>get_args\<close>\<close>

lemma get_args_try_call:
  assumes "msg.type m = ''call''" and "args m = VList raw" and "list_all is_field raw"
  shows "get_args_try self m =
     and_then (for_each (\<lambda>arg acc.
                 and_then (and_then (get_value (case last_entry raw (Field.tag arg) of
                                                  None \<Rightarrow> VNone | Some x \<Rightarrow> x))
                             (parse_if_Type (Field.type arg)))
                   (\<lambda>v. Inr (acc @ [VTuple [VStr (Field.name arg), v]])))
               (arguments self) [])
       (\<lambda>acc. Inr (Some (VList acc)))"
  using assms
  by (simp add: get_args_try_def by_field_id_VList and_then_assoc del: parse_if_Type.simps)

lemma get_args_try_reply:
  assumes "msg.type m = ''reply''" and "args m = VList (VField oid fid x # rest)"
  shows "get_args_try self m =
     (if fid = 0 then and_then (parse_if_Type (Function.type self) x) (\<lambda>v'. Inr (Some v'))
      else and_then (case throws_by_tags self fid of
                       None \<Rightarrow> Inl KeyError
                     | Some throw \<Rightarrow> Inr (Field.type throw))
             (\<lambda>throw_type. and_then (parse_if_Type throw_type x) (\<lambda>v'. Inr (Some v'))))"
  using assms by (simp add: get_args_try_def del: parse_if_Type.simps)

lemma get_args_try_call_not_fields:
  assumes "msg.type m = ''call''" and "args m = VList raw" and "\<not> list_all is_field raw"
  shows "get_args_try self m = Inl AttributeError"
  using assms by (simp add: get_args_try_def by_field_id_VList)

lemma get_args_of_Inl: "get_args_try self m = Inl e \<Longrightarrow> get_args self m = Inr (args m)"
  by (simp add: get_args_def)

lemma get_args_of_Some: "get_args_try self m = Inr (Some v) \<Longrightarrow> get_args self m = Inr v"
  by (simp add: get_args_def)

lemma throws_by_tags_last:
  assumes "throws self = xs @ throw # zs" and "\<forall>h \<in> set zs. Field.tag h \<noteq> Field.tag throw"
  shows "throws_by_tags self (Field.tag throw) = Some throw"
proof -
  let ?p = "\<lambda>x. (Field.tag x, x)"
  have "Field.tag throw \<notin> fst ` set (map ?p zs)"
    using assms(2) by (auto simp: image_iff)
  then have "dict_of (map ?p xs @ (Field.tag throw, throw) # map ?p zs) (Field.tag throw) = Some throw"
    by (rule dict_of_last)
  then show ?thesis
    using assms(1) by (simp add: throws_by_tags_def)
qed

lemma throws_by_tags_None:
  "fid \<notin> Field.tag ` set (throws self) \<Longrightarrow> throws_by_tags self fid = None"
  unfolding throws_by_tags_def by (rule dict_of_None) (simp add: image_iff)

lemma throws_by_tags_Some:
  assumes "throws_by_tags self fid = Some throw"
  shows "throw \<in> set (throws self) \<and> Field.tag throw = fid"
proof -
  from assms have "map_of (rev (map (\<lambda>x. (Field.tag x, x)) (throws self))) fid = Some throw"
    by (simp add: throws_by_tags_def dict_of_map_of)
  then have "(fid, throw) \<in> set (rev (map (\<lambda>x. (Field.tag x, x)) (throws self)))"
    by (rule map_of_SomeD)
  then show ?thesis by auto
qed

lemma get_args_try_call_any:
  assumes "msg.type m = ''call''"
  shows "get_args_try self m =
     and_then (by_field_id (args m)) (\<lambda>d.
     and_then (for_each (\<lambda>arg acc.
                 and_then (and_then (get_value (case d (Field.tag arg) of
                                                  None \<Rightarrow> VNone | Some x \<Rightarrow> x))
                             (parse_if_Type (Field.type arg)))
                   (\<lambda>v. Inr (acc @ [VTuple [VStr (Field.name arg), v]])))
               (arguments self) [])
       (\<lambda>acc. Inr (Some (VList acc))))"
  using assms by (simp add: get_args_try_def and_then_assoc del: parse_if_Type.simps)

lemma get_args_try_call_Some:
  assumes "msg.type m = ''call''" and "get_args_try self m = Inr (Some v)"
  shows "\<exists>d vs. by_field_id (args m) = Inr d
           \<and> list_all2 (\<lambda>arg w. \<exists>field x. d (Field.tag arg) = Some field
                            \<and> get_value field = Inr x
                            \<and> parse_if_Type (Field.type arg) x = Inr w) (arguments self) vs
           \<and> v = VList (map2 (\<lambda>arg w. VTuple [VStr (Field.name arg), w]) (arguments self) vs)"
proof -
  let ?f = "\<lambda>d arg. and_then (get_value (case d (Field.tag arg) of None \<Rightarrow> VNone | Some x \<Rightarrow> x))
                        (parse_if_Type (Field.type arg))"
  let ?g = "\<lambda>arg w. VTuple [VStr (Field.name arg), w]"
  from assms(2) obtain d acc where d: "by_field_id (args m) = Inr d"
    and loop: "for_each (\<lambda>arg acc. and_then (?f d arg) (\<lambda>v. Inr (acc @ [?g arg v]))) (arguments self) [] = Inr acc"
    and v: "v = VList acc"
    unfolding get_args_try_call_any[OF assms(1)] by (auto simp: and_then_eq_Inr)
  from for_each_collect_Inr[OF loop] obtain vs where
    vs: "list_all2 (\<lambda>arg w. ?f d arg = Inr w) (arguments self) vs" and acc: "acc = map2 ?g (arguments self) vs"
    by auto
  from vs have "list_all2 (\<lambda>arg w. \<exists>field x. d (Field.tag arg) = Some field
                            \<and> get_value field = Inr x
                            \<and> parse_if_Type (Field.type arg) x = Inr w) (arguments self) vs"
    by (rule list_all2_mono) (simp only: arg_value_eq_Inr)
  with d v acc show ?thesis by blast
qed

lemma get_args_try_reply_Some:
  assumes "msg.type m = ''reply''" and "get_args_try self m = Inr (Some v)"
  shows "\<exists>first fid x. py_getitem0 (args m) = Inr first \<and> get_field_id first = Inr fid
           \<and> get_value first = Inr x
           \<and> (if fid = 0 then parse_if_Type (Function.type self) x = Inr v
                else \<exists>throw. throws_by_tags self fid = Some throw
                       \<and> parse_if_Type (Field.type throw) x = Inr v)"
  using assms
  by (auto simp: get_args_try_def and_then_eq_Inr simp del: parse_if_Type.simps
           split: if_splits option.splits)

section \<open>The correlator never raises\<close>

text \<open>
  Claim C1. For every function and every message, whatever its role marker and its
  payload, \<open>get_args\<close> does not raise: it returns a value \<open>v\<close>, and \<open>v\<close> is one of
  \<^item> the payload \<^verbatim>\<open>msg.args\<close> of the message as it was received;
  \<^item> for a call, the list of (argument name, decoded value) pairs, one per declared argument
    in declared order, where each decoded value is the value of the entry that the
    dictionary of the payload holds for the tag of the argument, decoded through the type
    of the argument;
  \<^item> for a reply whose first entry has the tag 0, the value of that entry decoded through
    the declared return type;
  \<^item> for a reply whose first entry has another tag, the value of that entry decoded
    through the type of a declared throw with this tag.
\<close>

theorem get_args_never_raises:
  "\<exists>v. get_args self m = Inr v \<and>
     (v = args m
      \<or> (msg.type m = ''call'' \<and>
           (\<exists>d vs. by_field_id (args m) = Inr d
              \<and> list_all2 (\<lambda>arg w. \<exists>field x. d (Field.tag arg) = Some field
                               \<and> get_value field = Inr x
                               \<and> parse_if_Type (Field.type arg) x = Inr w) (arguments self) vs
              \<and> v = VList (map2 (\<lambda>arg w. VTuple [VStr (Field.name arg), w]) (arguments self) vs)))
      \<or> (msg.type m = ''reply'' \<and>
           (\<exists>first x. py_getitem0 (args m) = Inr first \<and> get_field_id first = Inr 0
              \<and> get_value first = Inr x
              \<and> parse_if_Type (Function.type self) x = Inr v))
      \<or> (msg.type m = ''reply'' \<and>
           (\<exists>first fid x throw. py_getitem0 (args m) = Inr first \<and> get_field_id first = Inr fid
              \<and> fid \<noteq> 0 \<and> get_value first = Inr x
              \<and> throw \<in> set (throws self) \<and> Field.tag throw = fid
              \<and> throws_by_tags self fid = Some throw
              \<and> parse_if_Type (Field.type throw) x = Inr v)))"
proof (cases "get_args_try self m")
  case (Inl e)
  then show ?thesis by (simp add: get_args_def)
next
  case (Inr r)
  show ?thesis
  proof (cases r)
    case None
    with Inr show ?thesis by (simp add: get_args_def)
  next
    case (Some v)
    with Inr have returned: "get_args_try self m = Inr (Some v)" by simp
    from returned have res: "get_args self m = Inr v" by (rule get_args_of_Some)
    have role: "msg.type m = ''call'' \<or> msg.type m = ''reply''"
      using returned by (auto simp: get_args_try_def split: if_splits)
    then show ?thesis
    proof
      assume call: "msg.type m = ''call''"
      from get_args_try_call_Some[OF call returned] res call show ?thesis
        by blast
    next
      assume reply: "msg.type m = ''reply''"
      from get_args_try_reply_Some[OF reply returned] obtain first fid x where
        first: "py_getitem0 (args m) = Inr first" "get_field_id first = Inr fid" "get_value first = Inr x"
        and dec: "if fid = 0 then parse_if_Type (Function.type self) x = Inr v
                else \<exists>throw. throws_by_tags self fid = Some throw
                       \<and> parse_if_Type (Field.type throw) x = Inr v"
        by blast
      show ?thesis
      proof (cases "fid = 0")
        case True
        with first dec res reply show ?thesis by auto
      next
        case False
        with dec obtain throw where t: "throws_by_tags self fid = Some throw"
          and p: "parse_if_Type (Field.type throw) x = Inr v" by auto
        from throws_by_tags_Some[OF t] first t p False res reply show ?thesis
          by blast
      qed
    qed
  qed
qed

theorem get_args_never_raises_witness:
  "get_args
      \<lparr>name = ''add'', arguments = [Field 1 ''a'' True Prim, Field 2 ''b'' True Prim],
         type = Prim, throws = []\<rparr>
      \<lparr>type = ''call'', args = VList [VField 0 1 (VInt 3), VField 1 2 (VInt 4)]\<rparr>
     = Inr (VList [VTuple [VStr ''a'', VInt 3], VTuple [VStr ''b'', VInt 4]])
   \<and> (\<exists>v. get_args
      \<lparr>name = ''add'', arguments = [Field 1 ''a'' True Prim, Field 2 ''b'' True Prim],
         type = Prim, throws = []\<rparr>
      \<lparr>type = ''call'', args = VList [VField 0 1 (VInt 3)]\<rparr> = Inr v
      \<and> v = VList [VField 0 1 (VInt 3)])"
proof -
  let ?self = "\<lparr>name = ''add'', arguments = [Field 1 ''a'' True Prim, Field 2 ''b'' True Prim],
         type = Prim, throws = []\<rparr>"
  have a: "get_args ?self \<lparr>type = ''call'', args = VList [VField 0 1 (VInt 3), VField 1 2 (VInt 4)]\<rparr>
     = Inr (VList [VTuple [VStr ''a'', VInt 3], VTuple [VStr ''b'', VInt 4]])"
    using get_args_never_raises
      [of ?self "\<lparr>type = ''call'', args = VList [VField 0 1 (VInt 3), VField 1 2 (VInt 4)]\<rparr>"]
    by (simp add: get_args_def get_args_try_def by_field_id_def)
  have b: "get_args ?self \<lparr>type = ''call'', args = VList [VField 0 1 (VInt 3)]\<rparr>
     = Inr (VList [VField 0 1 (VInt 3)])"
    using get_args_never_raises
      [of ?self "\<lparr>type = ''call'', args = VList [VField 0 1 (VInt 3)]\<rparr>"]
    by (simp add: get_args_def get_args_try_def by_field_id_def)
  from a b show ?thesis by simp
qed

text \<open>
  Claim C9. When the role marker of the message is neither \<^verbatim>\<open>'call'\<close> nor \<^verbatim>\<open>'reply'\<close>,
  the body of the \<^verbatim>\<open>try\<close> statement ends without decoding anything and without raising,
  and \<open>get_args\<close> returns the payload of the message unchanged.
\<close>

theorem get_args_other_role:
  "msg.type m \<noteq> ''call'' \<Longrightarrow> msg.type m \<noteq> ''reply'' \<Longrightarrow>
     get_args_try self m = Inr None \<and> get_args self m = Inr (args m)"
  by (simp add: get_args_def get_args_try_def)

theorem get_args_other_role_witness:
  "get_args_try
     \<lparr>name = ''add'', arguments = [Field 1 ''a'' True Prim], type = Prim, throws = []\<rparr>
     \<lparr>type = ''oneway'', args = VList [VField 0 1 (VInt 3)]\<rparr> = Inr None
   \<and> get_args
     \<lparr>name = ''add'', arguments = [Field 1 ''a'' True Prim], type = Prim, throws = []\<rparr>
     \<lparr>type = ''oneway'', args = VList [VField 0 1 (VInt 3)]\<rparr>
     = Inr (VList [VField 0 1 (VInt 3)])"
  using get_args_other_role
    [of "\<lparr>type = ''oneway'', args = VList [VField 0 1 (VInt 3)]\<rparr>"
        "\<lparr>name = ''add'', arguments = [Field 1 ''a'' True Prim], type = Prim, throws = []\<rparr>"]
  by simp

section \<open>Lookup of a function by name\<close>

text \<open>
  Claim C8. When the list of functions of a catalog holds several functions of one name,
  \<open>get_function\<close> on that name returns the last of them: for a list \<open>xs @ g # zs\<close> in
  which no function of \<open>zs\<close> has the name of \<open>g\<close>, it returns \<open>g\<close>, whatever \<open>xs\<close> holds.
  On a name that no function of the list has, it returns \<open>None\<close>, an ordinary result.
\<close>

theorem get_function_later_wins:
  "((\<forall>h \<in> set zs. Function.name h \<noteq> Function.name g) \<longrightarrow>
      get_function \<lparr>functions = xs @ g # zs\<rparr> (Function.name g) = Some g)
   \<and> (n \<notin> Function.name ` set fs \<longrightarrow> get_function \<lparr>functions = fs\<rparr> n = None)"
proof (intro conjI impI)
  assume no_later: "\<forall>h \<in> set zs. Function.name h \<noteq> Function.name g"
  let ?p = "\<lambda>x. (Function.name x, x)"
  have "Function.name g \<notin> fst ` set (map ?p zs)"
    using no_later by (auto simp: image_iff)
  then have "dict_of (map ?p xs @ (Function.name g, g) # map ?p zs) (Function.name g) = Some g"
    by (rule dict_of_last)
  then show "get_function \<lparr>functions = xs @ g # zs\<rparr> (Function.name g) = Some g"
    by (simp add: get_function_def functions_by_name_def)
next
  assume "n \<notin> Function.name ` set fs"
  then have "n \<notin> fst ` set (map (\<lambda>x. (Function.name x, x)) fs)"
    by (simp add: image_iff)
  then show "get_function \<lparr>functions = fs\<rparr> n = None"
    by (simp add: get_function_def functions_by_name_def dict_of_None)
qed

theorem get_function_later_wins_witness:
  "get_function
     \<lparr>functions =
        [\<lparr>name = ''add'', arguments = [], type = Prim, throws = []\<rparr>,
         \<lparr>name = ''add'', arguments = [Field 1 ''a'' True Prim], type = Prim, throws = []\<rparr>,
         \<lparr>name = ''ping'', arguments = [], type = Prim, throws = []\<rparr>]\<rparr> ''add''
     = Some \<lparr>name = ''add'', arguments = [Field 1 ''a'' True Prim], type = Prim, throws = []\<rparr>
   \<and> get_function
     \<lparr>functions =
        [\<lparr>name = ''add'', arguments = [], type = Prim, throws = []\<rparr>,
         \<lparr>name = ''add'', arguments = [Field 1 ''a'' True Prim], type = Prim, throws = []\<rparr>,
         \<lparr>name = ''ping'', arguments = [], type = Prim, throws = []\<rparr>]\<rparr> ''sub''
     = None"
  using get_function_later_wins
    [of "[\<lparr>name = ''ping'', arguments = [], type = Prim, throws = []\<rparr>]"
        "\<lparr>name = ''add'', arguments = [Field 1 ''a'' True Prim], type = Prim, throws = []\<rparr>"
        "[\<lparr>name = ''add'', arguments = [], type = Prim, throws = []\<rparr>]"
        "''sub''"
        "[\<lparr>name = ''add'', arguments = [], type = Prim, throws = []\<rparr>,
          \<lparr>name = ''add'', arguments = [Field 1 ''a'' True Prim], type = Prim, throws = []\<rparr>,
          \<lparr>name = ''ping'', arguments = [], type = Prim, throws = []\<rparr>]"]
  by simp

section \<open>Decoding an enum\<close>

text \<open>
  Claim C5. For an enum whose declared (label, tag) pairs have pairwise distinct tags,
  decoding the tag of a declared pair returns the label of that pair, and decoding an
  integer that is the tag of no declared pair raises KeyError: there is no fallback label.
\<close>

theorem enum_parse_left_inverse:
  assumes "distinct (map snd values)"
  shows "(\<forall>(label, t) \<in> set values. parse (Enum n values) (VInt t) = Inr (VStr label))
       \<and> (\<forall>i. i \<notin> snd ` set values \<longrightarrow> parse (Enum n values) (VInt i) = Inl KeyError)"
proof -
  let ?kvs = "rev (map (\<lambda>(name, value). (value, name)) values)"
  have fst_eq: "map fst ?kvs = rev (map snd values)"
    by (simp add: rev_map case_prod_unfold comp_def)
  have d: "distinct (map fst ?kvs)"
    using assms by (simp only: fst_eq distinct_rev)
  have a: "parse (Enum n values) (VInt t) = Inr (VStr label)"
    if "(label, t) \<in> set values" for label t
  proof -
    have "(t, label) \<in> set ?kvs" using that by force
    then have "map_of ?kvs t = Some label" using d by simp
    then show ?thesis by (simp add: enum_getitem_def names_by_tags_def dict_of_map_of)
  qed
  have b: "parse (Enum n values) (VInt i) = Inl KeyError" if "i \<notin> snd ` set values" for i
  proof -
    have "i \<notin> fst ` set ?kvs" using that by (force simp: image_iff)
    then have "map_of ?kvs i = None" by (simp add: map_of_eq_None_iff)
    then show ?thesis by (simp add: enum_getitem_def names_by_tags_def dict_of_map_of)
  qed
  show ?thesis using a b by auto
qed

theorem enum_parse_left_inverse_witness:
  "distinct (map snd [(''RED'', 1::int), (''GREEN'', 2)])
   \<and> parse (Enum ''Color'' [(''RED'', 1), (''GREEN'', 2)]) (VInt 1) = Inr (VStr ''RED'')
   \<and> parse (Enum ''Color'' [(''RED'', 1), (''GREEN'', 2)]) (VInt 2) = Inr (VStr ''GREEN'')
   \<and> parse (Enum ''Color'' [(''RED'', 1), (''GREEN'', 2)]) (VInt 3) = Inl KeyError"
proof -
  have d: "distinct (map snd [(''RED'', 1::int), (''GREEN'', 2)])" by simp
  show ?thesis
    using d enum_parse_left_inverse [OF d, of "''Color''"] by simp
qed

section \<open>Decoding a struct\<close>

text \<open>
  Claim C2, as stated, fails: \<^verbatim>\<open>Struct.parse\<close> does not return the sequence of
  (field name, value) pairs but the tuple \<^verbatim>\<open>(self.name, struct_fields)\<close>, whose second
  component is that sequence; and it returns nothing when the value of a present field
  does not decode (here an enum tag that is not declared), since the exception
  of the nested \<^verbatim>\<open>parse\<close> propagates.
\<close>

theorem struct_parse_sequence_counterexample:
  "parse (Struct ''Err'' [Field 1 ''message'' False Prim]) (VList [])
     = Inr (VTuple [VStr ''Err'', VList [VTuple [VStr ''message'', VNone]]])
   \<and> parse (Struct ''Err'' [Field 1 ''message'' False Prim]) (VList [])
     \<noteq> Inr (VList [VTuple [VStr ''message'', VNone]])
   \<and> parse (Struct ''Pixel'' [Field 1 ''color'' False (Enum ''Color'' [(''RED'', 1)])])
       (VList [VField 0 1 (VInt 7)]) = Inl KeyError"
  by (simp add: by_field_id_def enum_getitem_def names_by_tags_def dict_of_def)

text \<open>
  Claim C2, amended. For every struct or exception type and every raw list of tagged
  entries in which the value of each present declared field decodes without error,
  \<open>parse\<close> returns the pair of the name of the struct and the sequence of
  (field name, value) pairs, one per declared field, in the order of declaration, where
  the value of a field is that of \<open>field_value\<close>; a field whose tag no entry bears is paired
  with \<open>None\<close>. Decoding the empty list returns the name with every declared field paired
  with \<open>None\<close>, in declared order.
\<close>

theorem struct_parse_declared_order:
  assumes entries: "list_all is_field raw"
      and decoded: "list_all2 (\<lambda>fd v. field_value (last_entry raw) fd = Inr v) fs vs"
  shows "parse (Struct n fs) (VList raw)
           = Inr (VTuple [VStr n, VList (map2 (\<lambda>fd v. VTuple [VStr (Field.name fd), v]) fs vs)])
       \<and> parse (Exc n fs) (VList raw)
           = Inr (VTuple [VStr n, VList (map2 (\<lambda>fd v. VTuple [VStr (Field.name fd), v]) fs vs)])
       \<and> (\<forall>i < length fs. (\<forall>x \<in> set raw. get_field_id x \<noteq> Inr (Field.tag (fs ! i))) \<longrightarrow> vs ! i = VNone)
       \<and> parse (Struct n fs) (VList [])
           = Inr (VTuple [VStr n, VList (map (\<lambda>fd. VTuple [VStr (Field.name fd), VNone]) fs)])"
proof -
  let ?g = "\<lambda>fd v. VTuple [VStr (Field.name fd), v]"
  have loop: "for_each (\<lambda>fd acc. and_then (field_value (last_entry raw) fd) (\<lambda>v. Inr (acc @ [?g fd v]))) fs []
      = Inr ([] @ map2 ?g fs vs)"
    using decoded by (rule for_each_collect)
  have struct: "parse (Struct n fs) (VList raw) = Inr (VTuple [VStr n, VList (map2 ?g fs vs)])"
    using entries by (simp only: parse_Struct_VList loop if_True and_then_Inr append_Nil)
  have absent: "vs ! i = VNone"
    if "i < length fs" and "\<forall>x \<in> set raw. get_field_id x \<noteq> Inr (Field.tag (fs ! i))" for i
  proof -
    have "field_value (last_entry raw) (fs ! i) = Inr (vs ! i)"
      using decoded that(1) by (simp add: list_all2_conv_all_nth)
    moreover have "field_value (last_entry raw) (fs ! i) = Inr VNone"
      using that(2) by (rule field_value_absent)
    ultimately show ?thesis by simp
  qed
  have "list_all2 (\<lambda>fd v. field_value (last_entry []) fd = Inr v) fs (map (\<lambda>fd. VNone) fs)"
    by (simp add: list_all2_conv_all_nth field_value_no_entry)
  then have "for_each (\<lambda>fd acc. and_then (field_value (last_entry []) fd) (\<lambda>v. Inr (acc @ [?g fd v]))) fs []
      = Inr ([] @ map2 ?g fs (map (\<lambda>fd. VNone) fs))"
    by (rule for_each_collect)
  moreover have "map2 ?g fs (map (\<lambda>fd. VNone) fs) = map (\<lambda>fd. ?g fd VNone) fs"
    by (induction fs) simp_all
  ultimately have empty: "parse (Struct n fs) (VList [])
      = Inr (VTuple [VStr n, VList (map (\<lambda>fd. ?g fd VNone) fs)])"
    by (simp only: parse_Struct_VList list.pred_inject if_True and_then_Inr append_Nil)
  show ?thesis
    using struct absent empty by (simp del: parse.simps(3) add: parse.simps(4))
qed

theorem struct_parse_declared_order_witness:
  "list_all is_field [VField 0 2 (VInt 1), VField 1 7 VNone]
   \<and> list_all2 (\<lambda>fd v. field_value (last_entry [VField 0 2 (VInt 1), VField 1 7 VNone]) fd = Inr v)
        [Field 1 ''a'' True Prim, Field 2 ''b'' False (Enum ''E'' [(''X'', 1)])] [VNone, VStr ''X'']
   \<and> parse (Struct ''S'' [Field 1 ''a'' True Prim, Field 2 ''b'' False (Enum ''E'' [(''X'', 1)])])
        (VList [VField 0 2 (VInt 1), VField 1 7 VNone])
      = Inr (VTuple [VStr ''S'', VList [VTuple [VStr ''a'', VNone], VTuple [VStr ''b'', VStr ''X'']]])"
proof -
  have h1: "list_all is_field [VField 0 2 (VInt 1), VField 1 7 VNone]"
    by simp
  have h2: "list_all2 (\<lambda>fd v. field_value (last_entry [VField 0 2 (VInt 1), VField 1 7 VNone]) fd = Inr v)
        [Field 1 ''a'' True Prim, Field 2 ''b'' False (Enum ''E'' [(''X'', 1)])] [VNone, VStr ''X'']"
    by (simp add: field_value_def enum_getitem_def names_by_tags_def dict_of_def)
  from struct_parse_declared_order [OF h1 h2, of "''S''"]
  have "parse (Struct ''S'' [Field 1 ''a'' True Prim, Field 2 ''b'' False (Enum ''E'' [(''X'', 1)])])
        (VList [VField 0 2 (VInt 1), VField 1 7 VNone])
      = Inr (VTuple [VStr ''S'', VList [VTuple [VStr ''a'', VNone], VTuple [VStr ''b'', VStr ''X'']]])"
    by simp
  with h1 h2 show ?thesis by blast
qed

text \<open>
  Claim C10. In a raw field list with several entries of one tag, the entries before
  another entry of that tag have no influence on the result of \<open>parse\<close> (they are
  overwritten in \<^verbatim>\<open>fields_by_tag\<close>); an entry whose tag no declared field has can be
  removed without changing the result; and when \<open>parse\<close> returns, the pair of the declared
  field with tag \<open>t\<close> holds the decoded value of the last entry with tag \<open>t\<close>.
\<close>

theorem struct_parse_last_entry_wins:
  "parse (Struct n fs) (VList (xs @ VField oid t v # ys))
     = parse (Struct n fs) (VList (filter (\<lambda>x. get_field_id x \<noteq> Inr t) xs @ VField oid t v # ys))
   \<and> (t \<notin> Field.tag ` set fs \<longrightarrow>
        parse (Struct n fs) (VList (xs @ VField oid t v # ys)) = parse (Struct n fs) (VList (xs @ ys)))
   \<and> ((\<forall>y \<in> set ys. get_field_id y \<noteq> Inr t) \<and> i < length fs \<and> Field.tag (fs ! i) = t
        \<and> parse (Struct n fs) (VList (xs @ VField oid t v # ys)) = Inr r \<longrightarrow>
        (\<exists>w ps. parse_if_Type (Field.type (fs ! i)) v = Inr w \<and> r = VTuple [VStr n, VList ps]
           \<and> length ps = length fs \<and> ps ! i = VTuple [VStr (Field.name (fs ! i)), w]))"
proof (intro conjI impI)
  show "parse (Struct n fs) (VList (xs @ VField oid t v # ys))
     = parse (Struct n fs) (VList (filter (\<lambda>x. get_field_id x \<noteq> Inr t) xs @ VField oid t v # ys))"
    by (simp only: parse_Struct_VList last_entry_overwritten list_all_append is_field_filter)
next
  assume undeclared: "t \<notin> Field.tag ` set fs"
  let ?body = "\<lambda>raw fd acc. and_then (field_value (last_entry raw) fd)
                 (\<lambda>v. Inr (acc @ [VTuple [VStr (Field.name fd), v]]))"
  have "for_each (?body (xs @ VField oid t v # ys)) fs [] = for_each (?body (xs @ ys)) fs []"
  proof (rule for_each_cong)
    fix fd :: Field and acc :: "pyval list"
    assume "fd \<in> set fs"
    then have "Field.tag fd \<noteq> t" using undeclared by auto
    then have "field_value (last_entry (xs @ VField oid t v # ys)) fd = field_value (last_entry (xs @ ys)) fd"
      by (simp add: field_value_def last_entry_other_tag)
    then show "?body (xs @ VField oid t v # ys) fd acc = ?body (xs @ ys) fd acc"
      by simp
  qed simp_all
  then show "parse (Struct n fs) (VList (xs @ VField oid t v # ys)) = parse (Struct n fs) (VList (xs @ ys))"
    by (simp only: parse_Struct_VList list_all_append list.pred_inject is_field.simps simp_thms)
next
  assume a: "(\<forall>y \<in> set ys. get_field_id y \<noteq> Inr t) \<and> i < length fs \<and> Field.tag (fs ! i) = t
        \<and> parse (Struct n fs) (VList (xs @ VField oid t v # ys)) = Inr r"
  let ?raw = "xs @ VField oid t v # ys"
  let ?g = "\<lambda>fd v. VTuple [VStr (Field.name fd), v]"
  from a have r: "parse (Struct n fs) (VList ?raw) = Inr r" by simp
  then obtain ps where
    loop: "for_each (\<lambda>fd acc. and_then (field_value (last_entry ?raw) fd) (\<lambda>v. Inr (acc @ [?g fd v]))) fs [] = Inr ps"
    and r_eq: "r = VTuple [VStr n, VList ps]"
    unfolding parse_Struct_VList by (auto simp: and_then_eq_Inr split: if_splits)
  from for_each_collect_Inr[OF loop] obtain vs where
    vs: "list_all2 (\<lambda>fd v. field_value (last_entry ?raw) fd = Inr v) fs vs" and ps: "ps = map2 ?g fs vs"
    by auto
  from vs have len: "length vs = length fs" by (simp add: list_all2_lengthD)
  from a have i: "i < length fs" and tag: "Field.tag (fs ! i) = t" by simp_all
  have "last_entry ?raw t = Some (VField oid t v)"
    using a by (intro last_entry_last) simp
  then have "field_value (last_entry ?raw) (fs ! i) = parse_if_Type (Field.type (fs ! i)) v"
    using tag by (simp add: field_value_def del: parse_if_Type.simps)
  moreover have "field_value (last_entry ?raw) (fs ! i) = Inr (vs ! i)"
    using vs i by (simp add: list_all2_conv_all_nth)
  ultimately have "parse_if_Type (Field.type (fs ! i)) v = Inr (vs ! i)" by simp
  moreover have "length ps = length fs" using ps len by simp
  moreover have "ps ! i = VTuple [VStr (Field.name (fs ! i)), vs ! i]"
    using ps len i by simp
  ultimately show "\<exists>w ps. parse_if_Type (Field.type (fs ! i)) v = Inr w \<and> r = VTuple [VStr n, VList ps]
           \<and> length ps = length fs \<and> ps ! i = VTuple [VStr (Field.name (fs ! i)), w]"
    using r_eq by blast
qed

theorem struct_parse_last_entry_wins_witness:
  "parse (Struct ''S'' [Field 1 ''a'' True Prim])
       (VList [VField 0 1 (VInt 10), VField 1 1 (VInt 20), VField 2 9 (VInt 0)])
     = parse (Struct ''S'' [Field 1 ''a'' True Prim]) (VList [VField 1 1 (VInt 20), VField 2 9 (VInt 0)])
   \<and> 9 \<notin> Field.tag ` set [Field 1 ''a'' True Prim]
   \<and> parse (Struct ''S'' [Field 1 ''a'' True Prim])
       (VList [VField 0 1 (VInt 10), VField 1 1 (VInt 20), VField 2 9 (VInt 0)])
     = parse (Struct ''S'' [Field 1 ''a'' True Prim]) (VList [VField 0 1 (VInt 10), VField 1 1 (VInt 20)])
   \<and> get_field_id (VField 2 9 (VInt 0)) \<noteq> Inr 1
   \<and> Field.tag ([Field 1 ''a'' True Prim] ! 0) = 1
   \<and> parse (Struct ''S'' [Field 1 ''a'' True Prim])
       (VList [VField 0 1 (VInt 10), VField 1 1 (VInt 20), VField 2 9 (VInt 0)])
     = Inr (VTuple [VStr ''S'', VList [VTuple [VStr ''a'', VInt 20]]])"
  using struct_parse_last_entry_wins
      [of "''S''" "[Field 1 ''a'' True Prim]" "[VField 0 1 (VInt 10)]" 1 1 "VInt 20"
          "[VField 2 9 (VInt 0)]" 0 "VTuple [VStr ''S'', VList [VTuple [VStr ''a'', VInt 20]]]"]
    struct_parse_last_entry_wins
      [of "''S''" "[Field 1 ''a'' True Prim]" "[VField 0 1 (VInt 10), VField 1 1 (VInt 20)]" 2 9 "VInt 0"
          "[]" 0 "VNone"]
  by (simp add: by_field_id_def)

section \<open>Decoding a map\<close>

text \<open>
  Claim C6, as stated, fails: for a map whose keys are lists, two pairs whose keys decode
  to the same list do not yield a mapping with one entry, since a list cannot be the key of
  a dictionary and \<^verbatim>\<open>map_values[key] = value\<close> raises TypeError (every decoded struct,
  list, set and map is such a value); and a key or value that does not decode makes
  \<^verbatim>\<open>Map.parse\<close> raise.
\<close>

theorem map_parse_unhashable_counterexample:
  "parse_if_Type (List Prim) (VList [VInt 1]) = Inr (VList [VInt 1])
   \<and> parse (Map (List Prim) Prim)
       (VList [VTuple [VList [VInt 1], VInt 10], VTuple [VList [VInt 1], VInt 20]]) = Inl TypeError
   \<and> parse (Map Prim (Enum ''Color'' [(''RED'', 1)]))
       (VList [VTuple [VInt 5, VInt 7], VTuple [VInt 5, VInt 1]]) = Inl KeyError"
  by (simp add: unpack2_def dict_setitem_def enum_getitem_def names_by_tags_def dict_of_def)

text \<open>
  Claim C6, amended. For every map type and every raw list of pairs in which every key
  and every value decodes without error and every decoded key can be hashed, \<open>parse\<close>
  returns the dictionary obtained by storing the decoded pairs in input order: its keys are
  distinct and the value it holds for a key is that of the last pair with this key. For two
  pairs whose decoded keys are equal the dictionary has the single entry of the second pair.
  Whenever the key or the value of some pair of the list does not decode, \<open>parse\<close> raises.
\<close>

theorem map_parse_last_write_wins:
  "(list_all2 (\<lambda>x (k', v'). \<exists>k v. unpack2 x = Inr (k, v) \<and> parse_if_Type kt k = Inr k'
                         \<and> parse_if_Type vt v = Inr v' \<and> hashable k') raw kvs \<longrightarrow>
      (\<exists>d. parse (Map kt vt) (VList raw) = Inr (VDict d)
           \<and> d = foldl (\<lambda>d (k', v'). AList.update k' v' d) [] kvs
           \<and> distinct (map fst d) \<and> map_of d = map_of (rev kvs)
           \<and> (\<forall>k v1 v2. kvs = [(k, v1), (k, v2)] \<longrightarrow> d = [(k, v2)])))
   \<and> (x \<in> set raw \<and> unpack2 x = Inr (k, v)
        \<and> (parse_if_Type kt k = Inl e \<or> parse_if_Type vt v = Inl e) \<longrightarrow>
        (\<exists>e'. parse (Map kt vt) (VList raw) = Inl e'))"
proof (intro conjI impI)
  assume ok: "list_all2 (\<lambda>x (k', v'). \<exists>k v. unpack2 x = Inr (k, v) \<and> parse_if_Type kt k = Inr k'
                         \<and> parse_if_Type vt v = Inr v' \<and> hashable k') raw kvs"
  let ?d = "foldl (\<lambda>d (k', v'). AList.update k' v' d) [] kvs"
  have "for_each (\<lambda>x d. and_then (unpack2 x) (\<lambda>(k, v). and_then (parse_if_Type kt k) (\<lambda>k'.
                 and_then (parse_if_Type vt v) (\<lambda>v'. dict_setitem k' v' d)))) raw [] = Inr ?d"
    using ok by (rule for_each_dict_setitem)
  then have "parse (Map kt vt) (VList raw) = Inr (VDict ?d)"
    by (simp del: parse_if_Type.simps)
  moreover have "distinct (map fst ?d)" by (simp add: distinct_foldl_update)
  moreover have "map_of ?d = map_of (rev kvs)" by (simp add: map_of_foldl_update)
  moreover have "\<forall>k v1 v2. kvs = [(k, v1), (k, v2)] \<longrightarrow> ?d = [(k, v2)]" by simp
  ultimately show "\<exists>d. parse (Map kt vt) (VList raw) = Inr (VDict d)
           \<and> d = foldl (\<lambda>d (k', v'). AList.update k' v' d) [] kvs
           \<and> distinct (map fst d) \<and> map_of d = map_of (rev kvs)
           \<and> (\<forall>k v1 v2. kvs = [(k, v1), (k, v2)] \<longrightarrow> d = [(k, v2)])" by blast
next
  assume bad: "x \<in> set raw \<and> unpack2 x = Inr (k, v)
        \<and> (parse_if_Type kt k = Inl e \<or> parse_if_Type vt v = Inl e)"
  let ?body = "\<lambda>x d. and_then (unpack2 x) (\<lambda>(k, v). and_then (parse_if_Type kt k) (\<lambda>k'.
                 and_then (parse_if_Type vt v) (\<lambda>v'. dict_setitem k' v' d)))"
  have "\<exists>e'. for_each ?body raw [] = Inl e'"
  proof (rule for_each_body_fails)
    show "x \<in> set raw" using bad by simp
    show "\<exists>e'. ?body x d = Inl e'" for d
      using bad by (cases "parse_if_Type kt k") (auto simp del: parse_if_Type.simps)
  qed
  then show "\<exists>e'. parse (Map kt vt) (VList raw) = Inl e'"
    by (auto simp del: parse_if_Type.simps)
qed

theorem map_parse_last_write_wins_witness:
  "list_all2 (\<lambda>x (k', v'). \<exists>k v. unpack2 x = Inr (k, v) \<and> parse_if_Type Prim k = Inr k'
                 \<and> parse_if_Type (Enum ''Color'' [(''RED'', 1), (''BLUE'', 2)]) v = Inr v' \<and> hashable k')
      [VTuple [VStr ''sky'', VInt 1], VTuple [VStr ''sky'', VInt 2]]
      [(VStr ''sky'', VStr ''RED''), (VStr ''sky'', VStr ''BLUE'')]
   \<and> parse (Map Prim (Enum ''Color'' [(''RED'', 1), (''BLUE'', 2)]))
       (VList [VTuple [VStr ''sky'', VInt 1], VTuple [VStr ''sky'', VInt 2]])
     = Inr (VDict [(VStr ''sky'', VStr ''BLUE'')])
   \<and> VTuple [VStr ''sea'', VInt 7] \<in> set [VTuple [VStr ''sky'', VInt 1], VTuple [VStr ''sea'', VInt 7]]
   \<and> unpack2 (VTuple [VStr ''sea'', VInt 7]) = Inr (VStr ''sea'', VInt 7)
   \<and> parse_if_Type (Enum ''Color'' [(''RED'', 1), (''BLUE'', 2)]) (VInt 7) = Inl KeyError
   \<and> (\<exists>e'. parse (Map Prim (Enum ''Color'' [(''RED'', 1), (''BLUE'', 2)]))
              (VList [VTuple [VStr ''sky'', VInt 1], VTuple [VStr ''sea'', VInt 7]]) = Inl e')"
proof -
  let ?vt = "Enum ''Color'' [(''RED'', 1), (''BLUE'', 2)]"
  have h: "list_all2 (\<lambda>x (k', v'). \<exists>k v. unpack2 x = Inr (k, v) \<and> parse_if_Type Prim k = Inr k'
                 \<and> parse_if_Type ?vt v = Inr v' \<and> hashable k')
      [VTuple [VStr ''sky'', VInt 1], VTuple [VStr ''sky'', VInt 2]]
      [(VStr ''sky'', VStr ''RED''), (VStr ''sky'', VStr ''BLUE'')]"
    by (simp add: unpack2_def enum_getitem_def names_by_tags_def dict_of_def)
  have ok: "parse (Map Prim ?vt) (VList [VTuple [VStr ''sky'', VInt 1], VTuple [VStr ''sky'', VInt 2]])
     = Inr (VDict [(VStr ''sky'', VStr ''BLUE'')])"
    using map_parse_last_write_wins
      [of Prim ?vt "[VTuple [VStr ''sky'', VInt 1], VTuple [VStr ''sky'', VInt 2]]"
          "[(VStr ''sky'', VStr ''RED''), (VStr ''sky'', VStr ''BLUE'')]"
          "VTuple [VStr ''sea'', VInt 7]" "VStr ''sea''" "VInt 7" KeyError] h
    by (auto simp del: parse.simps parse_if_Type.simps)
  have b: "VTuple [VStr ''sea'', VInt 7] \<in> set [VTuple [VStr ''sky'', VInt 1], VTuple [VStr ''sea'', VInt 7]]
      \<and> unpack2 (VTuple [VStr ''sea'', VInt 7]) = Inr (VStr ''sea'', VInt 7)
      \<and> parse_if_Type ?vt (VInt 7) = Inl KeyError"
    by (simp add: unpack2_def enum_getitem_def names_by_tags_def dict_of_def)
  have bad: "\<exists>e'. parse (Map Prim ?vt)
              (VList [VTuple [VStr ''sky'', VInt 1], VTuple [VStr ''sea'', VInt 7]]) = Inl e'"
    using map_parse_last_write_wins
      [of Prim ?vt "[VTuple [VStr ''sky'', VInt 1], VTuple [VStr ''sea'', VInt 7]]" "[]"
          "VTuple [VStr ''sea'', VInt 7]" "VStr ''sea''" "VInt 7" KeyError] b
    by (simp del: parse.simps parse_if_Type.simps)
  from h ok b bad show ?thesis by blast
qed

section \<open>Decoding a set\<close>

text \<open>
  Claim C7, as stated, fails: for a set whose elements are lists, two raw elements that
  decode to the same list are not collapsed into one member, since a list cannot be a
  member of a set and \<^verbatim>\<open>set_values.add(value)\<close> raises TypeError (every decoded struct,
  list, set and map is such a value); and an element that does not decode makes
  \<^verbatim>\<open>Set.parse\<close> raise.
\<close>

theorem set_parse_unhashable_counterexample:
  "parse_if_Type (List Prim) (VList [VInt 1]) = Inr (VList [VInt 1])
   \<and> parse (Set (List Prim)) (VList [VList [VInt 1], VList [VInt 1]]) = Inl TypeError
   \<and> parse (Set (Enum ''Color'' [(''RED'', 1)])) (VList [VInt 7]) = Inl KeyError"
  by (simp add: set_add_def enum_getitem_def names_by_tags_def dict_of_def)

text \<open>
  Claim C7, amended. For every set type and every raw list whose elements all decode
  without error to values that can be hashed, \<open>parse\<close> returns a set without repetition
  whose members are the decoded values; its cardinality is the number of distinct decoded
  values. Whenever some element of the list does not decode, \<open>parse\<close> raises.
\<close>

theorem set_parse_distinct_values:
  "(list_all2 (\<lambda>x v. parse_if_Type t x = Inr v \<and> hashable v) raw vs \<longrightarrow>
      (\<exists>s. parse (Set t) (VList raw) = Inr (VSet s)
           \<and> distinct s \<and> set s = set vs \<and> length s = card (set vs)))
   \<and> (x \<in> set raw \<and> parse_if_Type t x = Inl e \<longrightarrow>
        (\<exists>e'. parse (Set t) (VList raw) = Inl e'))"
proof (intro conjI impI)
  assume ok: "list_all2 (\<lambda>x v. parse_if_Type t x = Inr v \<and> hashable v) raw vs"
  let ?s = "foldl (\<lambda>s v. List.insert v s) [] vs"
  have "for_each (\<lambda>x s. and_then (parse_if_Type t x) (\<lambda>v. set_add v s)) raw [] = Inr ?s"
    using ok by (rule for_each_set_add)
  then have "parse (Set t) (VList raw) = Inr (VSet ?s)"
    by (simp del: parse_if_Type.simps)
  moreover have d: "distinct ?s" by (simp add: distinct_foldl_insert)
  moreover have s: "set ?s = set vs" by (simp add: set_foldl_insert)
  moreover have "length ?s = card (set vs)"
    using d s distinct_card[of ?s] by simp
  ultimately show "\<exists>s. parse (Set t) (VList raw) = Inr (VSet s)
           \<and> distinct s \<and> set s = set vs \<and> length s = card (set vs)" by blast
next
  assume bad: "x \<in> set raw \<and> parse_if_Type t x = Inl e"
  let ?body = "\<lambda>x s. and_then (parse_if_Type t x) (\<lambda>v. set_add v s)"
  have "\<exists>e'. for_each ?body raw [] = Inl e'"
  proof (rule for_each_body_fails)
    show "x \<in> set raw" using bad by simp
    show "\<exists>e'. ?body x s = Inl e'" for s using bad by (simp del: parse_if_Type.simps)
  qed
  then show "\<exists>e'. parse (Set t) (VList raw) = Inl e'"
    by (auto simp del: parse_if_Type.simps)
qed

theorem set_parse_distinct_values_witness:
  "list_all2 (\<lambda>x v. parse_if_Type (Enum ''Color'' [(''RED'', 1), (''BLUE'', 2)]) x = Inr v \<and> hashable v)
      [VInt 1, VInt 2, VInt 1] [VStr ''RED'', VStr ''BLUE'', VStr ''RED'']
   \<and> (\<exists>s. parse (Set (Enum ''Color'' [(''RED'', 1), (''BLUE'', 2)])) (VList [VInt 1, VInt 2, VInt 1])
            = Inr (VSet s)
          \<and> distinct s \<and> set s = {VStr ''RED'', VStr ''BLUE''} \<and> length s = 2)
   \<and> VInt 7 \<in> set [VInt 1, VInt 7]
   \<and> parse_if_Type (Enum ''Color'' [(''RED'', 1), (''BLUE'', 2)]) (VInt 7) = Inl KeyError
   \<and> (\<exists>e'. parse (Set (Enum ''Color'' [(''RED'', 1), (''BLUE'', 2)])) (VList [VInt 1, VInt 7]) = Inl e')"
proof -
  let ?t = "Enum ''Color'' [(''RED'', 1), (''BLUE'', 2)]"
  have h: "list_all2 (\<lambda>x v. parse_if_Type ?t x = Inr v \<and> hashable v)
      [VInt 1, VInt 2, VInt 1] [VStr ''RED'', VStr ''BLUE'', VStr ''RED'']"
    by (simp add: enum_getitem_def names_by_tags_def dict_of_def)
  have c: "card (set [VStr ''RED'', VStr ''BLUE'', VStr ''RED'']) = 2"
    by (simp add: insert_commute)
  have ok: "\<exists>s. parse (Set ?t) (VList [VInt 1, VInt 2, VInt 1]) = Inr (VSet s)
          \<and> distinct s \<and> set s = {VStr ''RED'', VStr ''BLUE''} \<and> length s = 2"
    using set_parse_distinct_values
      [of ?t "[VInt 1, VInt 2, VInt 1]" "[VStr ''RED'', VStr ''BLUE'', VStr ''RED'']" "VInt 7" KeyError]
      h c
    by (auto simp del: parse.simps parse_if_Type.simps simp: insert_commute)
  have b: "VInt 7 \<in> set [VInt 1, VInt 7] \<and> parse_if_Type ?t (VInt 7) = Inl KeyError"
    by (simp add: enum_getitem_def names_by_tags_def dict_of_def)
  have bad: "\<exists>e'. parse (Set ?t) (VList [VInt 1, VInt 7]) = Inl e'"
    using set_parse_distinct_values [of ?t "[VInt 1, VInt 7]" "[]" "VInt 7" KeyError] b
    by (simp del: parse.simps parse_if_Type.simps)
  from h ok b bad show ?thesis by blast
qed

section \<open>Arguments of a call\<close>

text \<open>
  Claim C3, as stated, fails: a call whose payload has an entry for the tag of the one
  declared argument, of an enum type, with a value that is the tag of no label, does not
  yield the sequence of (argument name, decoded value) pairs. The KeyError of
  \<^verbatim>\<open>Enum.parse\<close> is caught and \<open>get_args\<close> returns the raw payload.
\<close>

theorem get_args_call_undecodable_counterexample:
  "msg.type \<lparr>type = ''call'', args = VList [VField 0 1 (VInt 7)]\<rparr> = ''call''
   \<and> get_field_id (VField 0 1 (VInt 7)) = Inr (Field.tag (Field 1 ''c'' True (Enum ''Color'' [(''RED'', 1)])))
   \<and> get_args
        \<lparr>name = ''paint'', arguments = [Field 1 ''c'' True (Enum ''Color'' [(''RED'', 1)])],
           type = Prim, throws = []\<rparr>
        \<lparr>type = ''call'', args = VList [VField 0 1 (VInt 7)]\<rparr>
      = Inr (VList [VField 0 1 (VInt 7)])"
  by (simp add: get_args_def get_args_try_def by_field_id_def enum_getitem_def names_by_tags_def
        dict_of_def)

text \<open>
  Claim C3, amended. For every function and every call whose payload is a list of
  tagged entries that has, for each declared argument, an entry with the tag of the argument
  whose value (that of the last such entry) decodes without error through the type of
  the argument (or is passed through, when the type is not a schema type), \<open>get_args\<close>
  returns the sequence of (argument name, decoded value) pairs in the declared order of the
  arguments. Whenever the value for some declared argument does not decode, \<open>get_args\<close>
  returns the raw payload; so it does when a declared argument has no entry, and when
  the list holds something that is not a tagged entry.
\<close>

theorem get_args_call_declared_order:
  assumes "msg.type m = ''call''" and "args m = VList raw"
  shows "(list_all is_field raw
          \<and> list_all2 (\<lambda>arg v. \<exists>field x. last_entry raw (Field.tag arg) = Some field
                         \<and> get_value field = Inr x
                         \<and> parse_if_Type (Field.type arg) x = Inr v) (arguments self) vs \<longrightarrow>
          get_args self m
            = Inr (VList (map2 (\<lambda>arg v. VTuple [VStr (Field.name arg), v]) (arguments self) vs)))
       \<and> (list_all is_field raw \<and> arg \<in> set (arguments self)
          \<and> last_entry raw (Field.tag arg) = Some field \<and> get_value field = Inr x
          \<and> parse_if_Type (Field.type arg) x = Inl e \<longrightarrow>
          get_args self m = Inr (args m))
       \<and> (list_all is_field raw \<and> arg \<in> set (arguments self)
          \<and> last_entry raw (Field.tag arg) = None \<longrightarrow>
          get_args self m = Inr (args m))
       \<and> (\<not> list_all is_field raw \<longrightarrow> get_args self m = Inr (args m))"
proof -
  let ?f = "\<lambda>arg. and_then (get_value (case last_entry raw (Field.tag arg) of
                                          None \<Rightarrow> VNone | Some x \<Rightarrow> x))
                      (parse_if_Type (Field.type arg))"
  let ?g = "\<lambda>arg v. VTuple [VStr (Field.name arg), v]"
  let ?body = "\<lambda>arg acc. and_then (?f arg) (\<lambda>v. Inr (acc @ [?g arg v]))"
  have success: "get_args self m = Inr (VList (map2 ?g (arguments self) vs))"
    if entries: "list_all is_field raw"
    and decoded: "list_all2 (\<lambda>arg v. \<exists>field x. last_entry raw (Field.tag arg) = Some field
                         \<and> get_value field = Inr x
                         \<and> parse_if_Type (Field.type arg) x = Inr v) (arguments self) vs"
  proof -
    have "list_all2 (\<lambda>arg v. ?f arg = Inr v) (arguments self) vs"
      using decoded by (rule list_all2_mono) (auto simp del: parse_if_Type.simps)
    then have "for_each ?body (arguments self) [] = Inr ([] @ map2 ?g (arguments self) vs)"
      by (rule for_each_collect)
    then have "get_args_try self m = Inr (Some (VList (map2 ?g (arguments self) vs)))"
      by (simp only: get_args_try_call[OF assms entries] and_then_Inr append_Nil)
    then show ?thesis by (rule get_args_of_Some)
  qed
  have failure: "get_args self m = Inr (args m)"
    if entries: "list_all is_field raw" and arg: "arg \<in> set (arguments self)"
    and bad: "?f arg = Inl e'" for e'
  proof -
    have "\<exists>e. for_each ?body (arguments self) [] = Inl e"
      using arg
    proof (rule for_each_body_fails)
      show "\<exists>e. ?body arg acc = Inl e" for acc
        using bad by (simp only: and_then_Inl) blast
    qed
    then obtain e where "get_args_try self m = Inl e"
      by (auto simp only: get_args_try_call[OF assms entries] and_then_Inl)
    then show ?thesis by (rule get_args_of_Inl)
  qed
  have undecodable: "get_args self m = Inr (args m)"
    if "list_all is_field raw \<and> arg \<in> set (arguments self)
          \<and> last_entry raw (Field.tag arg) = Some field \<and> get_value field = Inr x
          \<and> parse_if_Type (Field.type arg) x = Inl e"
  proof -
    from that have "?f arg = Inl e" by (simp del: parse_if_Type.simps)
    with that show ?thesis by (intro failure) simp_all
  qed
  have missing: "get_args self m = Inr (args m)"
    if "list_all is_field raw \<and> arg \<in> set (arguments self)
          \<and> last_entry raw (Field.tag arg) = None"
  proof -
    from that have "?f arg = Inl AttributeError" by (simp del: parse_if_Type.simps)
    with that show ?thesis by (intro failure) simp_all
  qed
  have not_fields: "get_args self m = Inr (args m)" if "\<not> list_all is_field raw"
    using get_args_try_call_not_fields[OF assms that] by (rule get_args_of_Inl)
  show ?thesis
    using success undecodable missing not_fields by blast
qed

theorem get_args_call_declared_order_witness:
  "list_all is_field [VField 0 2 (VInt 4), VField 1 1 (VInt 3)]
   \<and> list_all2 (\<lambda>arg v. \<exists>field x. last_entry [VField 0 2 (VInt 4), VField 1 1 (VInt 3)] (Field.tag arg) = Some field
                         \<and> get_value field = Inr x
                         \<and> parse_if_Type (Field.type arg) x = Inr v)
        [Field 1 ''a'' True Prim, Field 2 ''b'' True Prim] [VInt 3, VInt 4]
   \<and> get_args
        \<lparr>name = ''add'', arguments = [Field 1 ''a'' True Prim, Field 2 ''b'' True Prim],
           type = Prim, throws = []\<rparr>
        \<lparr>type = ''call'', args = VList [VField 0 2 (VInt 4), VField 1 1 (VInt 3)]\<rparr>
      = Inr (VList [VTuple [VStr ''a'', VInt 3], VTuple [VStr ''b'', VInt 4]])
   \<and> last_entry [VField 0 1 (VInt 7)] 1 = Some (VField 0 1 (VInt 7))
   \<and> parse_if_Type (Enum ''Color'' [(''RED'', 1)]) (VInt 7) = Inl KeyError
   \<and> get_args
        \<lparr>name = ''paint'', arguments = [Field 1 ''c'' True (Enum ''Color'' [(''RED'', 1)])],
           type = Prim, throws = []\<rparr>
        \<lparr>type = ''call'', args = VList [VField 0 1 (VInt 7)]\<rparr>
      = Inr (VList [VField 0 1 (VInt 7)])
   \<and> last_entry [VField 0 1 (VInt 3)] 2 = None
   \<and> get_args
        \<lparr>name = ''add'', arguments = [Field 1 ''a'' True Prim, Field 2 ''b'' True Prim],
           type = Prim, throws = []\<rparr>
        \<lparr>type = ''call'', args = VList [VField 0 1 (VInt 3)]\<rparr>
      = Inr (VList [VField 0 1 (VInt 3)])
   \<and> \<not> list_all is_field [VInt 3, VInt 4]
   \<and> get_args
        \<lparr>name = ''add'', arguments = [Field 1 ''a'' True Prim, Field 2 ''b'' True Prim],
           type = Prim, throws = []\<rparr>
        \<lparr>type = ''call'', args = VList [VInt 3, VInt 4]\<rparr>
      = Inr (VList [VInt 3, VInt 4])"
proof -
  let ?add = "\<lparr>name = ''add'', arguments = [Field 1 ''a'' True Prim, Field 2 ''b'' True Prim],
           type = Prim, throws = []\<rparr>"
  let ?paint = "\<lparr>name = ''paint'', arguments = [Field 1 ''c'' True (Enum ''Color'' [(''RED'', 1)])],
           type = Prim, throws = []\<rparr>"
  let ?m1 = "\<lparr>type = ''call'', args = VList [VField 0 2 (VInt 4), VField 1 1 (VInt 3)]\<rparr>"
  let ?m2 = "\<lparr>type = ''call'', args = VList [VField 0 1 (VInt 7)]\<rparr>"
  let ?m3 = "\<lparr>type = ''call'', args = VList [VField 0 1 (VInt 3)]\<rparr>"
  let ?m4 = "\<lparr>type = ''call'', args = VList [VInt 3, VInt 4]\<rparr>"
  have t1: "msg.type ?m1 = ''call''" and t2: "msg.type ?m2 = ''call''"
    and t3: "msg.type ?m3 = ''call''" and t4: "msg.type ?m4 = ''call''"
    by simp_all
  have a1: "args ?m1 = VList [VField 0 2 (VInt 4), VField 1 1 (VInt 3)]"
    and a2: "args ?m2 = VList [VField 0 1 (VInt 7)]"
    and a3: "args ?m3 = VList [VField 0 1 (VInt 3)]"
    and a4: "args ?m4 = VList [VInt 3, VInt 4]"
    by simp_all
  have h3: "list_all is_field [VField 0 2 (VInt 4), VField 1 1 (VInt 3)]" by simp
  have h4: "list_all2 (\<lambda>arg v. \<exists>field x. last_entry [VField 0 2 (VInt 4), VField 1 1 (VInt 3)] (Field.tag arg) = Some field
                         \<and> get_value field = Inr x
                         \<and> parse_if_Type (Field.type arg) x = Inr v)
        (arguments ?add) [VInt 3, VInt 4]"
    by simp
  have r1: "get_args ?add ?m1 = Inr (VList [VTuple [VStr ''a'', VInt 3], VTuple [VStr ''b'', VInt 4]])"
    using get_args_call_declared_order [OF t1 a1, of ?add "[VInt 3, VInt 4]"] h3 h4
    by simp
  have u: "last_entry [VField 0 1 (VInt 7)] 1 = Some (VField 0 1 (VInt 7))
      \<and> parse_if_Type (Enum ''Color'' [(''RED'', 1)]) (VInt 7) = Inl KeyError"
    by (simp add: enum_getitem_def names_by_tags_def dict_of_def)
  have r2: "get_args ?paint ?m2 = Inr (VList [VField 0 1 (VInt 7)])"
    using get_args_call_declared_order
      [OF t2 a2, of ?paint "[]" "Field 1 ''c'' True (Enum ''Color'' [(''RED'', 1)])"
          "VField 0 1 (VInt 7)" "VInt 7" KeyError] u
    by (simp del: parse_if_Type.simps)
  have mi: "last_entry [VField 0 1 (VInt 3)] 2 = None" by simp
  have r3: "get_args ?add ?m3 = Inr (VList [VField 0 1 (VInt 3)])"
    using get_args_call_declared_order
      [OF t3 a3, of ?add "[]" "Field 2 ''b'' True Prim" VNone VNone KeyError] mi
    by (simp del: parse_if_Type.simps)
  have nf: "\<not> list_all is_field [VInt 3, VInt 4]" by simp
  have r4: "get_args ?add ?m4 = Inr (VList [VInt 3, VInt 4])"
    using get_args_call_declared_order
      [OF t4 a4, of ?add "[]" "Field 2 ''b'' True Prim" VNone VNone KeyError] nf
    by (simp del: parse_if_Type.simps)
  from h3 h4 r1 u r2 mi r3 nf r4 show ?thesis by simp
qed

section \<open>Value of a reply\<close>

text \<open>
  Claim C4, as stated, fails: a reply whose first entry has the tag 0 and a value that
  does not decode through the declared return type (an enum, and the tag of no label) does
  not yield a decoded value. The KeyError of \<^verbatim>\<open>Enum.parse\<close> is caught and \<open>get_args\<close>
  returns the raw payload.
\<close>

theorem get_args_reply_undecodable_counterexample:
  "get_args
        \<lparr>name = ''pick'', arguments = [], type = Enum ''Color'' [(''RED'', 1)], throws = []\<rparr>
        \<lparr>type = ''reply'', args = VList [VField 0 0 (VInt 7)]\<rparr>
      = Inr (VList [VField 0 0 (VInt 7)])
   \<and> parse_if_Type (Enum ''Color'' [(''RED'', 1)]) (VInt 7) = Inl KeyError"
  by (simp add: get_args_def get_args_try_def enum_getitem_def names_by_tags_def dict_of_def)

text \<open>
  Claim C4, amended. For every function and every reply whose payload is a list that
  starts with a tagged entry, only this first entry is examined, whatever follows it.
  If its tag is 0, its value is decoded through the declared return type (or passed
  through, when that is not a schema type), also when a throw is declared with the tag 0:
  \<open>get_args\<close> returns the decoded value, and the raw payload when the decoding raises.
  If its tag is not 0 and is the tag of a declared throw (the last one declared with this
  tag), its value is decoded through the type of that throw: \<open>get_args\<close> returns the decoded
  value, and the raw payload when the decoding raises. If its tag is not 0 and is the tag
  of no declared throw, \<open>get_args\<close> returns the raw payload.
\<close>

theorem get_args_reply_first_entry:
  assumes "msg.type m = ''reply''" and "args m = VList (VField oid fid x # rest)"
  shows "(fid = 0 \<and> parse_if_Type (Function.type self) x = Inr v \<longrightarrow> get_args self m = Inr v)
       \<and> (fid = 0 \<and> parse_if_Type (Function.type self) x = Inl e \<longrightarrow> get_args self m = Inr (args m))
       \<and> (fid \<noteq> 0 \<and> throws self = xs @ throw # zs \<and> Field.tag throw = fid
            \<and> (\<forall>h \<in> set zs. Field.tag h \<noteq> fid)
            \<and> parse_if_Type (Field.type throw) x = Inr v \<longrightarrow> get_args self m = Inr v)
       \<and> (fid \<noteq> 0 \<and> throws self = xs @ throw # zs \<and> Field.tag throw = fid
            \<and> (\<forall>h \<in> set zs. Field.tag h \<noteq> fid)
            \<and> parse_if_Type (Field.type throw) x = Inl e \<longrightarrow> get_args self m = Inr (args m))
       \<and> (fid \<noteq> 0 \<and> fid \<notin> Field.tag ` set (throws self) \<longrightarrow> get_args self m = Inr (args m))"
proof (intro conjI impI)
  assume "fid = 0 \<and> parse_if_Type (Function.type self) x = Inr v"
  then have "get_args_try self m = Inr (Some v)"
    by (simp add: get_args_try_reply[OF assms] del: parse_if_Type.simps)
  then show "get_args self m = Inr v" by (rule get_args_of_Some)
next
  assume "fid = 0 \<and> parse_if_Type (Function.type self) x = Inl e"
  then have "get_args_try self m = Inl e"
    by (simp add: get_args_try_reply[OF assms] del: parse_if_Type.simps)
  then show "get_args self m = Inr (args m)" by (rule get_args_of_Inl)
next
  assume a: "fid \<noteq> 0 \<and> throws self = xs @ throw # zs \<and> Field.tag throw = fid
            \<and> (\<forall>h \<in> set zs. Field.tag h \<noteq> fid)
            \<and> parse_if_Type (Field.type throw) x = Inr v"
  then have "throws_by_tags self fid = Some throw"
    using throws_by_tags_last[of self xs throw zs] by auto
  then have "get_args_try self m = Inr (Some v)"
    using a by (simp add: get_args_try_reply[OF assms] del: parse_if_Type.simps)
  then show "get_args self m = Inr v" by (rule get_args_of_Some)
next
  assume a: "fid \<noteq> 0 \<and> throws self = xs @ throw # zs \<and> Field.tag throw = fid
            \<and> (\<forall>h \<in> set zs. Field.tag h \<noteq> fid)
            \<and> parse_if_Type (Field.type throw) x = Inl e"
  then have "throws_by_tags self fid = Some throw"
    using throws_by_tags_last[of self xs throw zs] by auto
  then have "get_args_try self m = Inl e"
    using a by (simp add: get_args_try_reply[OF assms] del: parse_if_Type.simps)
  then show "get_args self m = Inr (args m)" by (rule get_args_of_Inl)
next
  assume a: "fid \<noteq> 0 \<and> fid \<notin> Field.tag ` set (throws self)"
  then have "throws_by_tags self fid = None"
    by (simp add: throws_by_tags_None)
  then have "get_args_try self m = Inl KeyError"
    using a by (simp add: get_args_try_reply[OF assms] del: parse_if_Type.simps)
  then show "get_args self m = Inr (args m)" by (rule get_args_of_Inl)
qed

theorem get_args_reply_first_entry_witness:
  "get_args
        \<lparr>name = ''add'', arguments = [], type = Prim,
           throws = [Field 1 ''e'' False (Exc ''Err'' [Field 1 ''message'' False Prim])]\<rparr>
        \<lparr>type = ''reply'', args = VList [VField 0 0 (VInt 7), VField 1 1 VNone]\<rparr>
      = Inr (VInt 7)
   \<and> parse_if_Type (Enum ''Color'' [(''RED'', 1)]) (VInt 7) = Inl KeyError
   \<and> get_args
        \<lparr>name = ''pick'', arguments = [], type = Enum ''Color'' [(''RED'', 1)],
           throws = [Field 0 ''e'' False Prim]\<rparr>
        \<lparr>type = ''reply'', args = VList [VField 0 0 (VInt 7)]\<rparr>
      = Inr (VList [VField 0 0 (VInt 7)])
   \<and> parse_if_Type (Exc ''Err'' [Field 1 ''message'' False Prim]) (VList [VField 1 1 (VStr ''boom'')])
      = Inr (VTuple [VStr ''Err'', VList [VTuple [VStr ''message'', VStr ''boom'']]])
   \<and> get_args
        \<lparr>name = ''add'', arguments = [], type = Prim,
           throws = [Field 1 ''e'' False (Exc ''Err'' [Field 1 ''message'' False Prim])]\<rparr>
        \<lparr>type = ''reply'', args = VList [VField 0 1 (VList [VField 1 1 (VStr ''boom'')])]\<rparr>
      = Inr (VTuple [VStr ''Err'', VList [VTuple [VStr ''message'', VStr ''boom'']]])
   \<and> parse_if_Type (Exc ''Err'' [Field 1 ''message'' False Prim]) (VInt 5) = Inl TypeError
   \<and> get_args
        \<lparr>name = ''add'', arguments = [], type = Prim,
           throws = [Field 1 ''e'' False (Exc ''Err'' [Field 1 ''message'' False Prim])]\<rparr>
        \<lparr>type = ''reply'', args = VList [VField 0 1 (VInt 5)]\<rparr>
      = Inr (VList [VField 0 1 (VInt 5)])
   \<and> 2 \<notin> Field.tag ` set [Field 1 ''e'' False (Exc ''Err'' [Field 1 ''message'' False Prim])]
   \<and> get_args
        \<lparr>name = ''add'', arguments = [], type = Prim,
           throws = [Field 1 ''e'' False (Exc ''Err'' [Field 1 ''message'' False Prim])]\<rparr>
        \<lparr>type = ''reply'', args = VList [VField 0 2 (VInt 5)]\<rparr>
      = Inr (VList [VField 0 2 (VInt 5)])"
proof -
  let ?exc = "Exc ''Err'' [Field 1 ''message'' False Prim]"
  let ?throw = "Field 1 ''e'' False ?exc"
  let ?add = "\<lparr>name = ''add'', arguments = [], type = Prim, throws = [?throw]\<rparr>"
  let ?pick = "\<lparr>name = ''pick'', arguments = [], type = Enum ''Color'' [(''RED'', 1)],
           throws = [Field 0 ''e'' False Prim]\<rparr>"
  let ?m1 = "\<lparr>type = ''reply'', args = VList [VField 0 0 (VInt 7), VField 1 1 VNone]\<rparr>"
  let ?m2 = "\<lparr>type = ''reply'', args = VList [VField 0 0 (VInt 7)]\<rparr>"
  let ?m3 = "\<lparr>type = ''reply'', args = VList [VField 0 1 (VList [VField 1 1 (VStr ''boom'')])]\<rparr>"
  let ?m4 = "\<lparr>type = ''reply'', args = VList [VField 0 1 (VInt 5)]\<rparr>"
  let ?m5 = "\<lparr>type = ''reply'', args = VList [VField 0 2 (VInt 5)]\<rparr>"
  let ?err = "VTuple [VStr ''Err'', VList [VTuple [VStr ''message'', VStr ''boom'']]]"
  have t: "msg.type ?m1 = ''reply''" "msg.type ?m2 = ''reply''" "msg.type ?m3 = ''reply''"
    "msg.type ?m4 = ''reply''" "msg.type ?m5 = ''reply''"
    by simp_all
  have a1: "args ?m1 = VList (VField 0 0 (VInt 7) # [VField 1 1 VNone])" by simp
  have a2: "args ?m2 = VList (VField 0 0 (VInt 7) # [])" by simp
  have a3: "args ?m3 = VList (VField 0 1 (VList [VField 1 1 (VStr ''boom'')]) # [])" by simp
  have a4: "args ?m4 = VList (VField 0 1 (VInt 5) # [])" by simp
  have a5: "args ?m5 = VList (VField 0 2 (VInt 5) # [])" by simp
  have r1: "get_args ?add ?m1 = Inr (VInt 7)"
    using get_args_reply_first_entry [OF t(1) a1, of ?add "VInt 7" KeyError "[]" ?throw "[]"]
    by simp
  have d2: "parse_if_Type (Enum ''Color'' [(''RED'', 1)]) (VInt 7) = Inl KeyError"
    by (simp add: enum_getitem_def names_by_tags_def dict_of_def)
  have r2: "get_args ?pick ?m2 = Inr (VList [VField 0 0 (VInt 7)])"
    using get_args_reply_first_entry
      [OF t(2) a2, of ?pick VNone KeyError "[]" "Field 0 ''e'' False Prim" "[]"] d2
    by (simp del: parse.simps parse_if_Type.simps)
  have d3: "parse_if_Type ?exc (VList [VField 1 1 (VStr ''boom'')]) = Inr ?err"
    by (simp add: by_field_id_def)
  have r3: "get_args ?add ?m3 = Inr ?err"
    using get_args_reply_first_entry [OF t(3) a3, of ?add ?err KeyError "[]" ?throw "[]"] d3
    by (simp del: parse.simps parse_if_Type.simps)
  have d4: "parse_if_Type ?exc (VInt 5) = Inl TypeError"
    by (simp add: by_field_id_def)
  have r4: "get_args ?add ?m4 = Inr (VList [VField 0 1 (VInt 5)])"
    using get_args_reply_first_entry [OF t(4) a4, of ?add VNone TypeError "[]" ?throw "[]"] d4
    by (simp del: parse.simps parse_if_Type.simps)
  have n5: "2 \<notin> Field.tag ` set [?throw]" by simp
  have r5: "get_args ?add ?m5 = Inr (VList [VField 0 2 (VInt 5)])"
    using get_args_reply_first_entry [OF t(5) a5, of ?add VNone KeyError "[]" ?throw "[]"] n5
    by (simp del: parse.simps parse_if_Type.simps)
  from r1 d2 r2 d3 r3 d4 r4 n5 r5 show ?thesis by simp
qed

end
